theory Spec2Isabelle
  imports Complex_Main "HOL-Library.Word"
begin

unbundle bit_operations_syntax

chapter \<open>The model\<close>

section \<open>Timeline builder and active-event lookup (handleDownloadVideo)\<close>

text \<open>
  A timeline entry is the object pushed by the export routine: either
  \<^verbatim>\<open>{type: 'slide', index, startTime, duration}\<close> or
  \<^verbatim>\<open>{type: 'transition', from, to, startTime, duration}\<close>.
  Times are JavaScript numbers; they are modelled as reals, so the rounding of
  floating-point addition is left out.
\<close>

datatype timeline_event =
    is_slide: SlideEvent (index: nat) (startTime: real) (duration: real)
  | is_transition: TransitionEvent (from_index: nat) (to_index: nat) (startTime: real) (duration: real)

text \<open>The constant \<^verbatim>\<open>const transitionDuration = 0\<close> of the export routine.\<close>

definition transitionDuration :: real where
  "transitionDuration = 0"

text \<open>
  The loop \<^verbatim>\<open>for (let i = 0; i < slides.length; i++)\<close> that pushes the events.
  \<open>slideDurations\<close> has one entry per slide, so \<open>slides.length\<close> is its length; the
  state of the loop is the index, \<open>currentTime\<close> and the timeline built so far. The test
  \<^verbatim>\<open>i < slides.length - 1\<close> is written on integers, as the source computes it.
\<close>

function timeline_loop :: "real list \<Rightarrow> nat \<Rightarrow> real \<Rightarrow> timeline_event list \<Rightarrow> timeline_event list \<times> real" where
  "timeline_loop slideDurations i currentTime timeline =
     (if i < length slideDurations then
        let timeline1 = timeline @ [SlideEvent i currentTime (slideDurations ! i)];
            currentTime1 = currentTime + slideDurations ! i
        in if int i < int (length slideDurations) - 1 then
             timeline_loop slideDurations (i + 1) (currentTime1 + transitionDuration)
               (timeline1 @ [TransitionEvent i (i + 1) currentTime1 transitionDuration])
           else timeline_loop slideDurations (i + 1) currentTime1 timeline1
      else (timeline, currentTime))"
  by pat_completeness auto
termination
  by (relation "measure (\<lambda>(ds, i, t, tl). length ds - i)") auto

declare timeline_loop.simps [simp del]

text \<open>The timeline and \<^verbatim>\<open>totalDuration\<close> (the final \<open>currentTime\<close>).\<close>

definition build_timeline :: "real list \<Rightarrow> timeline_event list \<times> real" where
  "build_timeline slideDurations = timeline_loop slideDurations 0 0 []"

text \<open>
  The lookup of the render loop:
  \<^verbatim>\<open>timeline.find(e => elapsed >= e.startTime && elapsed < e.startTime + e.duration)\<close>.
\<close>

definition currentEvent :: "timeline_event list \<Rightarrow> real \<Rightarrow> timeline_event option" where
  "currentEvent timeline elapsed =
     find (\<lambda>e. elapsed \<ge> startTime e \<and> elapsed < startTime e + duration e) timeline"

text \<open>
  Which drawing branch one call of \<^verbatim>\<open>renderLoop\<close> takes: a slide event draws that slide, a
  transition event draws the outgoing and the incoming slide, no event draws the last frame
  once \<open>elapsed \<ge> totalDuration\<close> and only the background otherwise.
\<close>

datatype frame_branch = DrawSlide nat | DrawTransition nat nat | DrawLastFrame | DrawBackgroundOnly

definition renderLoop_branch :: "timeline_event list \<Rightarrow> real \<Rightarrow> real \<Rightarrow> frame_branch" where
  "renderLoop_branch timeline totalDuration elapsed =
     (case currentEvent timeline elapsed of
        Some (SlideEvent i s d) \<Rightarrow> DrawSlide i
      | Some (TransitionEvent f t s d) \<Rightarrow> DrawTransition f t
      | None \<Rightarrow> if elapsed \<ge> totalDuration then DrawLastFrame else DrawBackgroundOnly)"

text \<open>
  Two notions used to state and prove the properties of the timeline: a list of events is
  contiguous from \<open>t\<close> when the first starts at \<open>t\<close> and each next one starts where the
  previous one ends; \<open>events_from\<close> is the closed form of what the loop appends from index
  \<open>i\<close> and time \<open>t\<close> on (proved equal to the loop in \<open>timeline_loop_eq\<close>).
\<close>

fun contiguous_from :: "real \<Rightarrow> timeline_event list \<Rightarrow> bool" where
  "contiguous_from t [] = True"
| "contiguous_from t (e # es) = (startTime e = t \<and> contiguous_from (t + duration e) es)"

fun events_from :: "real list \<Rightarrow> nat \<Rightarrow> real \<Rightarrow> timeline_event list" where
  "events_from [] i t = []"
| "events_from [d] i t = [SlideEvent i t d]"
| "events_from (d # ds) i t = SlideEvent i t d # TransitionEvent i (i + 1) (t + d) transitionDuration # events_from ds (i + 1) (t + d + transitionDuration)"


section \<open>The retry policy (withRetry)\<close>

text \<open>
  The fallible operation \<^verbatim>\<open>asyncFn\<close> is called once per loop iteration; it is modelled by
  the outcome of its \<open>k\<close>-th call (counted from 0): \<open>Inl\<close> an error thrown, \<open>Inr\<close> a
  value returned. The model returns, beside the outcome of \<^verbatim>\<open>withRetry\<close>, the number of
  calls of \<^verbatim>\<open>asyncFn\<close> made and the delays waited with \<^verbatim>\<open>setTimeout\<close>, in order.

  \<^verbatim>\<open>
  let attempt = 0;
  while (attempt < maxRetries) {
    try { return await asyncFn(); }
    catch (error) {
      attempt++;
      if (attempt >= maxRetries) { throw error; }
      const delay = initialDelay * Math.pow(2, attempt - 1);
      await new Promise(resolve => setTimeout(resolve, delay));
    }
  }
  throw new Error("Retry logic failed unexpectedly.");
  \<close>
\<close>

datatype 'e retry_error = Rethrown 'e | RetryLogicFailed

function withRetry_loop ::
  "(nat \<Rightarrow> 'e + 'a) \<Rightarrow> nat \<Rightarrow> nat \<Rightarrow> nat \<Rightarrow> nat \<Rightarrow> nat list
     \<Rightarrow> ('e retry_error + 'a) \<times> nat \<times> nat list" where
  "withRetry_loop asyncFn maxRetries initialDelay attempt calls delays =
     (if attempt < maxRetries then
        (case asyncFn calls of
           Inr v \<Rightarrow> (Inr v, calls + 1, delays)
         | Inl error \<Rightarrow>
             let attempt1 = attempt + 1 in
             if attempt1 \<ge> maxRetries then (Inl (Rethrown error), calls + 1, delays)
             else let delay = initialDelay * 2 ^ (attempt1 - 1) in
               withRetry_loop asyncFn maxRetries initialDelay attempt1 (calls + 1) (delays @ [delay]))
      else (Inl RetryLogicFailed, calls, delays))"
  by pat_completeness auto
termination
  by (relation "measure (\<lambda>(f, m, d, a, c, ds). m - a)") auto

declare withRetry_loop.simps [simp del]

definition withRetry ::
  "(nat \<Rightarrow> 'e + 'a) \<Rightarrow> nat \<Rightarrow> nat \<Rightarrow> ('e retry_error + 'a) \<times> nat \<times> nat list" where
  "withRetry asyncFn maxRetries initialDelay =
     withRetry_loop asyncFn maxRetries initialDelay 0 0 []"

text \<open>
  Every caller in the service uses the default parameters
  \<^verbatim>\<open>maxRetries = 3, initialDelay = 2000\<close>.
\<close>

definition withRetry_default ::
  "(nat \<Rightarrow> 'e + 'a) \<Rightarrow> ('e retry_error + 'a) \<times> nat \<times> nat list" where
  "withRetry_default asyncFn = withRetry asyncFn 3 2000"


section \<open>Strings\<close>

text \<open>
  A JavaScript string is a sequence of UTF-16 code units; \<^verbatim>\<open>length\<close> counts code units.
  \<open>js\<close> writes an ASCII literal as such a string.
\<close>

type_synonym js_string = "16 word list"

definition js :: "string \<Rightarrow> js_string" where
  "js s = map of_char s"

text \<open>
  \<^verbatim>\<open>String.prototype.trim\<close> removes the white space and line terminator code units of
  ECMAScript from both ends: TAB, LF, VT, FF, CR, SPACE, NBSP, the Unicode space separators
  and ZWNBSP.
\<close>

definition is_js_whitespace :: "16 word \<Rightarrow> bool" where
  "is_js_whitespace c \<longleftrightarrow>
     c \<in> {0x09, 0x0A, 0x0B, 0x0C, 0x0D, 0x20, 0xA0, 0x1680, 0x2028, 0x2029, 0x202F, 0x205F,
          0x3000, 0xFEFF}
     \<or> (0x2000 \<le> c \<and> c \<le> 0x200A)"

definition trim :: "js_string \<Rightarrow> js_string" where
  "trim s = rev (dropWhile is_js_whitespace (rev (dropWhile is_js_whitespace s)))"

text \<open>
  \<^verbatim>\<open>text.split(/[\n.]+/)\<close>: the pieces between the maximal runs of separator code
  units. A run at the start or at the end of the text leaves an empty piece there, and the
  empty text gives one empty piece, as \<^verbatim>\<open>split\<close> does. \<open>piece\<close> collects the code units
  read since the last run.
\<close>

function split_on_runs :: "('a \<Rightarrow> bool) \<Rightarrow> 'a list \<Rightarrow> 'a list \<Rightarrow> 'a list list" where
  "split_on_runs sep piece [] = [piece]"
| "split_on_runs sep piece (c # cs) =
     (if sep c then piece # split_on_runs sep [] (dropWhile sep cs)
      else split_on_runs sep (piece @ [c]) cs)"
  by pat_completeness auto
termination
  by (relation "measure (\<lambda>(sep, piece, cs). length cs)")
     (auto simp: less_Suc_eq_le length_dropWhile_le)

definition is_newline_or_period :: "16 word \<Rightarrow> bool" where
  "is_newline_or_period c \<longleftrightarrow> c = 0x0A \<or> c = 0x2E"

section \<open>Text segmentation (splitTextIntoSentences) and the orchestrator's guard\<close>

text \<open>
  The local rule of the \<^verbatim>\<open>catch\<close> branch:
  \<^verbatim>\<open>text.split(/[\n.]+/).filter(line => line.trim().length > 2)\<close>.
\<close>

definition fallback_split :: "js_string \<Rightarrow> js_string list" where
  "fallback_split text =
     filter (\<lambda>line. length (trim line) > 2) (split_on_runs is_newline_or_period [] text)"

text \<open>
  What \<^verbatim>\<open>JSON.parse\<close> returns, as far as the validation looks at it: a string, an array,
  or any other value.
\<close>

datatype json = is_string: JString (string_of: js_string) | JArray "json list" | JOther

text \<open>
  The provider call \<^verbatim>\<open>ai.models.generateContent\<close> is the operation given to the retry
  policy: its \<open>k\<close>-th call throws or returns a response, of which only
  \<^verbatim>\<open>response.text\<close> is read (\<open>None\<close> when it is undefined, where \<^verbatim>\<open>.trim()\<close> throws).
  \<^verbatim>\<open>JSON.parse\<close> is a parameter: it throws or returns a value. Every throw inside the
  \<^verbatim>\<open>try\<close> block, the validation's own included, ends in the fallback.
\<close>

definition splitTextIntoSentences ::
  "(nat \<Rightarrow> 'e + js_string option) \<Rightarrow> (js_string \<Rightarrow> 'p + json) \<Rightarrow> js_string \<Rightarrow> js_string list" where
  "splitTextIntoSentences generateContent JSON_parse text =
     (case fst (withRetry_default generateContent) of
        Inl error \<Rightarrow> fallback_split text
      | Inr None \<Rightarrow> fallback_split text
      | Inr (Some response_text) \<Rightarrow>
          (case JSON_parse (trim response_text) of
             Inl error \<Rightarrow> fallback_split text
           | Inr (JArray sentences) \<Rightarrow>
               if list_all is_string sentences
               then filter (\<lambda>s. trim s \<noteq> []) (map string_of sentences)
               else fallback_split text
           | Inr other \<Rightarrow> fallback_split text))"

text \<open>
  The first stage of \<^verbatim>\<open>generateSlides\<close>: nothing happens on a blank input; otherwise the
  text is segmented, and an empty list of lines is the error
  "No meaningful lines could be extracted from the text.", which sets the generation state
  to \<^verbatim>\<open>'error'\<close> and ends the generation.
\<close>

datatype segmenting_result = NotStarted | NoMeaningfulLines | Segmented "js_string list"

definition generateSlides_lines ::
  "(nat \<Rightarrow> 'e + js_string option) \<Rightarrow> (js_string \<Rightarrow> 'p + json) \<Rightarrow> js_string \<Rightarrow> segmenting_result" where
  "generateSlides_lines generateContent JSON_parse inputText =
     (if trim inputText = [] then NotStarted
      else let lines = splitTextIntoSentences generateContent JSON_parse inputText in
        if length lines = 0 then NoMeaningfulLines else Segmented lines)"


section \<open>Slides and the single-slide regeneration handlers\<close>

text \<open>
  The \<^verbatim>\<open>Slide\<close> interface. The field \<^verbatim>\<open>id\<close> is called \<open>slide_id\<close> here; \<^verbatim>\<open>null\<close> is
  \<open>None\<close>.
\<close>

record slide =
  slide_id :: nat
  english :: js_string
  hindi :: js_string
  imageUrl :: "js_string option"
  script :: js_string
  audioData :: "js_string option"

text \<open>
  The three handlers act on the slide sequence of the application state. The service
  functions are parameters: a call throws (\<open>Inl\<close>) or returns (\<open>Inr\<close>); the services of
  this repository catch their own failures and return a sentinel string or \<^verbatim>\<open>null\<close>, which
  is a returned value here. A handler does nothing when \<^verbatim>\<open>slides[currentSlideIndex]\<close> is
  undefined; it leaves the slides alone when a service throws (the \<^verbatim>\<open>catch\<close> only reports);
  otherwise it maps over the slides and replaces the fields of each slide whose id is the
  current slide's:
  \<^verbatim>\<open>prevSlides.map(s => s.id === slide.id ? { ...s, imageUrl: newImageUrl } : s)\<close>.
  The functional update is applied to the sequence the handler read the slide from.
\<close>

definition handleRegenerateImage ::
  "(js_string \<Rightarrow> js_string \<Rightarrow> js_string \<Rightarrow> 'e + js_string option)
     \<Rightarrow> js_string \<Rightarrow> slide list \<Rightarrow> nat \<Rightarrow> slide list" where
  "handleRegenerateImage generateImage contextText slides currentSlideIndex =
     (if currentSlideIndex < length slides then
        let slide = slides ! currentSlideIndex in
        (case generateImage (english slide) (script slide) contextText of
           Inr newImageUrl \<Rightarrow>
             map (\<lambda>s. if slide_id s = slide_id slide then s\<lparr>imageUrl := newImageUrl\<rparr> else s) slides
         | Inl error \<Rightarrow> slides)
      else slides)"

definition handleRegenerateTranslation ::
  "(js_string \<Rightarrow> js_string \<Rightarrow> 'e + js_string)
     \<Rightarrow> js_string \<Rightarrow> slide list \<Rightarrow> nat \<Rightarrow> slide list" where
  "handleRegenerateTranslation translateText contextText slides currentSlideIndex =
     (if currentSlideIndex < length slides then
        let slide = slides ! currentSlideIndex in
        (case translateText (english slide) contextText of
           Inr newHindi \<Rightarrow>
             map (\<lambda>s. if slide_id s = slide_id slide then s\<lparr>hindi := newHindi\<rparr> else s) slides
         | Inl error \<Rightarrow> slides)
      else slides)"

definition handleRegenerateScript ::
  "(js_string \<Rightarrow> js_string \<Rightarrow> 'e + js_string) \<Rightarrow> (js_string \<Rightarrow> 'e + js_string option)
     \<Rightarrow> js_string \<Rightarrow> slide list \<Rightarrow> nat \<Rightarrow> slide list" where
  "handleRegenerateScript generateExplanation generateSpeech contextText slides currentSlideIndex =
     (if currentSlideIndex < length slides then
        let slide = slides ! currentSlideIndex in
        (case generateExplanation (english slide) contextText of
           Inr newScript \<Rightarrow>
             (case generateSpeech newScript of
                Inr newAudioData \<Rightarrow>
                  map (\<lambda>s. if slide_id s = slide_id slide
                           then s\<lparr>script := newScript, audioData := newAudioData\<rparr> else s) slides
              | Inl error \<Rightarrow> slides)
         | Inl error \<Rightarrow> slides)
      else slides)"

text \<open>
  The slide sequences the application state can hold: one rule per \<^verbatim>\<open>setSlides\<close> call of
  the source. \<^verbatim>\<open>setSlides([])\<close> clears the lesson. \<^verbatim>\<open>generateSlides\<close> pushes
  \<^verbatim>\<open>{ id: i, english, hindi, imageUrl: null, script, audioData: null }\<close> with \<open>i\<close> the
  number of slides pushed before, then assigns \<^verbatim>\<open>imageUrl\<close> and \<^verbatim>\<open>audioData\<close> of the slide
  at an index of its array, and publishes a copy after each step. The three handlers
  replace the state by their result. (The rules allow more interleavings than the
  generation runs through, which only widens the set.)
\<close>

inductive lesson_slides :: "slide list \<Rightarrow> bool" where
  cleared: "lesson_slides []"
| pushed: "lesson_slides newSlides \<Longrightarrow>
     lesson_slides (newSlides @ [\<lparr>slide_id = length newSlides, english = e, hindi = h,
        imageUrl = None, script = sc, audioData = None\<rparr>])"
| image_set: "lesson_slides newSlides \<Longrightarrow> i < length newSlides \<Longrightarrow>
     lesson_slides (newSlides[i := (newSlides ! i)\<lparr>imageUrl := u\<rparr>])"
| audio_set: "lesson_slides newSlides \<Longrightarrow> i < length newSlides \<Longrightarrow>
     lesson_slides (newSlides[i := (newSlides ! i)\<lparr>audioData := a\<rparr>])"
| image_regenerated: "lesson_slides slides \<Longrightarrow>
     lesson_slides (handleRegenerateImage
       (gi :: js_string \<Rightarrow> js_string \<Rightarrow> js_string \<Rightarrow> unit + js_string option) ctx slides i)"
| translation_regenerated: "lesson_slides slides \<Longrightarrow>
     lesson_slides (handleRegenerateTranslation
       (tt :: js_string \<Rightarrow> js_string \<Rightarrow> unit + js_string) ctx slides i)"
| script_regenerated: "lesson_slides slides \<Longrightarrow>
     lesson_slides (handleRegenerateScript
       (ge :: js_string \<Rightarrow> js_string \<Rightarrow> unit + js_string) gs ctx slides i)"


section \<open>Text auto-fit layout (calculateLines, createTextCache)\<close>

text \<open>
  The fonts the layout sets on the canvas context, \<^verbatim>\<open>700 ${size}px Poppins\<close> and
  \<^verbatim>\<open>700 ${size}px "Tiro Devanagari Hindi"\<close>, and the browser's text metrics
  \<^verbatim>\<open>context.measureText(s).width\<close> under the current font, a parameter of the model.
\<close>

datatype font = Poppins nat | TiroDevanagariHindi nat

type_synonym text_metrics = "font \<Rightarrow> js_string \<Rightarrow> real"

text \<open>\<^verbatim>\<open>text.split(' ')\<close>: the pieces between the single occurrences of the separator.\<close>

fun split_each :: "'a \<Rightarrow> 'a list \<Rightarrow> 'a list \<Rightarrow> 'a list list" where
  "split_each sep piece [] = [piece]"
| "split_each sep piece (c # cs) =
     (if c = sep then piece # split_each sep [] cs else split_each sep (piece @ [c]) cs)"

text \<open>
  The loop of \<^verbatim>\<open>calculateLines\<close> over \<^verbatim>\<open>words[1], words[2], ...\<close> with its state
  \<^verbatim>\<open>currentLine\<close> and \<^verbatim>\<open>lines\<close>, and the final \<^verbatim>\<open>lines.push(currentLine)\<close>.
\<close>

fun wrap_words ::
  "text_metrics \<Rightarrow> font \<Rightarrow> real \<Rightarrow> js_string list \<Rightarrow> js_string \<Rightarrow> js_string list \<Rightarrow> js_string list" where
  "wrap_words measureText fnt maxWidth [] currentLine lines = lines @ [currentLine]"
| "wrap_words measureText fnt maxWidth (w # ws) currentLine lines =
     (let testLine = currentLine @ [0x20] @ w in
      if measureText fnt testLine > maxWidth
      then wrap_words measureText fnt maxWidth ws w (lines @ [currentLine])
      else wrap_words measureText fnt maxWidth ws testLine lines)"

definition calculateLines :: "text_metrics \<Rightarrow> font \<Rightarrow> js_string \<Rightarrow> real \<Rightarrow> js_string list" where
  "calculateLines measureText fnt txt maxWidth =
     (if txt = [] then []
      else case split_each 0x20 [] txt of
             [] \<Rightarrow> [[]]
           | w # ws \<Rightarrow> wrap_words measureText fnt maxWidth ws w [])"

text \<open>
  The canvas is 1920 by 1080:
  \<^verbatim>\<open>MAX_TEXT_WIDTH = canvas.width / 2 - 80\<close>, \<^verbatim>\<open>MAX_TEXT_HEIGHT = canvas.height - 80\<close>.
\<close>

definition MAX_TEXT_WIDTH :: real where
  "MAX_TEXT_WIDTH = 1920 / 2 - 80"

definition MAX_TEXT_HEIGHT :: real where
  "MAX_TEXT_HEIGHT = 1080 - 80"

text \<open>
  The variables that \<^verbatim>\<open>createTextCache\<close> draws the text from. They are declared as
  \<^verbatim>\<open>finalEnglishFontSize = 0, finalHindiFontSize = 0, totalTextHeight = 0\<close>,
  \<^verbatim>\<open>englishLines = [], hindiLines = []\<close> and assigned only in the loop, before its
  \<^verbatim>\<open>break\<close>.
\<close>

record text_layout =
  finalEnglishFontSize :: nat
  finalHindiFontSize :: nat
  totalTextHeight :: real
  englishLines :: "js_string list"
  hindiLines :: "js_string list"

definition initial_layout :: text_layout where
  "initial_layout = \<lparr>finalEnglishFontSize = 0, finalHindiFontSize = 0, totalTextHeight = 0,
     englishLines = [], hindiLines = []\<rparr>"

text \<open>
  One pass of the loop body at a font size (\<open>sz\<close> for the source's \<^verbatim>\<open>size\<close>): the
  candidate sizes, lines and height. The Hindi size \<^verbatim>\<open>Math.floor(size * 0.85)\<close> is computed on naturals.
\<close>

definition layout_at :: "text_metrics \<Rightarrow> slide \<Rightarrow> nat \<Rightarrow> text_layout" where
  "layout_at measureText slide sz =
     (let currentEnglishFontSize = sz;
          currentHindiFontSize = (sz * 85) div 100;
          englishLineHeight = real currentEnglishFontSize * 1.3;
          hindiLineHeight = real currentHindiFontSize * 1.5;
          tempEnglishLines =
            calculateLines measureText (Poppins currentEnglishFontSize) (english slide) MAX_TEXT_WIDTH;
          tempHindiLines =
            calculateLines measureText (TiroDevanagariHindi currentHindiFontSize) (hindi slide) MAX_TEXT_WIDTH;
          calculatedHeight = real (length tempEnglishLines) * englishLineHeight
            + real (length tempHindiLines) * hindiLineHeight
            + (if length tempHindiLines > 0 then 25 else 0)
      in \<lparr>finalEnglishFontSize = currentEnglishFontSize, finalHindiFontSize = currentHindiFontSize,
           totalTextHeight = calculatedHeight, englishLines = tempEnglishLines,
           hindiLines = tempHindiLines\<rparr>)"

text \<open>
  \<^verbatim>\<open>for (let size = 48; size >= 10; size -= 2)\<close> with
  \<^verbatim>\<open>if (calculatedHeight <= MAX_TEXT_HEIGHT) { ...; break; }\<close>. When the loop ends
  without a \<^verbatim>\<open>break\<close> the variables keep their initial values.
\<close>

function fit_loop :: "text_metrics \<Rightarrow> slide \<Rightarrow> nat \<Rightarrow> text_layout" where
  "fit_loop measureText slide sz =
     (if sz \<ge> 10 then
        let candidate = layout_at measureText slide sz in
        if totalTextHeight candidate \<le> MAX_TEXT_HEIGHT then candidate
        else fit_loop measureText slide (sz - 2)
      else initial_layout)"
  by pat_completeness auto
termination
  by (relation "measure (\<lambda>(m, s, sz). sz)") auto

declare fit_loop.simps [simp del]

definition createTextCache_layout :: "text_metrics \<Rightarrow> slide \<Rightarrow> text_layout" where
  "createTextCache_layout measureText slide = fit_loop measureText slide 48"

text \<open>
  The \<^verbatim>\<open>fillText\<close> calls that draw the layout, each with its line, its font size and its
  vertical position: the English lines from \<^verbatim>\<open>startY = (canvas.height - totalTextHeight) / 2\<close>
  on, one line height apart, then, when there is a Hindi line, a gap of 25 and the Hindi
  lines.
\<close>

fun fill_lines :: "nat \<Rightarrow> real \<Rightarrow> real \<Rightarrow> js_string list \<Rightarrow> (js_string \<times> nat \<times> real) list" where
  "fill_lines fontSize lineHeight currentY [] = []"
| "fill_lines fontSize lineHeight currentY (line # lines) =
     (line, fontSize, currentY) # fill_lines fontSize lineHeight (currentY + lineHeight) lines"

definition fillText_calls :: "text_layout \<Rightarrow> (js_string \<times> nat \<times> real) list" where
  "fillText_calls layout =
     (let startY = (1080 - totalTextHeight layout) / 2;
          englishLineHeight = real (finalEnglishFontSize layout) * 1.3;
          afterEnglish = startY + real (length (englishLines layout)) * englishLineHeight
      in fill_lines (finalEnglishFontSize layout) englishLineHeight startY (englishLines layout)
         @ (if length (hindiLines layout) > 0
            then fill_lines (finalHindiFontSize layout) (real (finalHindiFontSize layout) * 1.5)
                   (afterEnglish + 25) (hindiLines layout)
            else []))"

text \<open>
  The sizes the loop tries, in its order, and whether the text fits at a size. Both are
  used to state the properties of the loop.
\<close>

definition tried_sizes :: "nat list" where
  "tried_sizes = [48, 46, 44, 42, 40, 38, 36, 34, 32, 30, 28, 26, 24, 22, 20, 18, 16, 14, 12, 10]"

definition fits :: "text_metrics \<Rightarrow> slide \<Rightarrow> nat \<Rightarrow> bool" where
  "fits measureText slide sz \<longleftrightarrow>
     totalTextHeight (layout_at measureText slide sz) \<le> MAX_TEXT_HEIGHT"


section \<open>Audio decoding (decode, getAudioBufferFromBase64)\<close>

text \<open>The exceptions of the platform operations the decoder calls.\<close>

datatype js_error = InvalidCharacterError | RangeError | NotSupportedError

subsection \<open>The platform's base64 decoder\<close>

text \<open>
  \<^verbatim>\<open>atob\<close> is the forgiving base64 decoder of the web platform: ASCII white space (TAB, LF,
  FF, CR, SPACE) is removed; if the length is then a multiple of 4, one or two final
  \<^verbatim>\<open>=\<close> are removed; a length of remainder 1 modulo 4 and a code unit outside the base64
  alphabet are errors; every code unit stands for 6 bits, every 24 bits give three bytes,
  and 12 or 18 remaining bits give one or two bytes, their last 4 or 2 bits discarded. The
  result is a binary string, one code unit per byte.
\<close>

definition is_ascii_whitespace :: "16 word \<Rightarrow> bool" where
  "is_ascii_whitespace c \<longleftrightarrow> c \<in> {0x09, 0x0A, 0x0C, 0x0D, 0x20}"

definition base64_value :: "16 word \<Rightarrow> nat option" where
  "base64_value c =
     (if 0x41 \<le> c \<and> c \<le> 0x5A then Some (unat c - 0x41)
      else if 0x61 \<le> c \<and> c \<le> 0x7A then Some (unat c - 0x61 + 26)
      else if 0x30 \<le> c \<and> c \<le> 0x39 then Some (unat c - 0x30 + 52)
      else if c = 0x2B then Some 62
      else if c = 0x2F then Some 63
      else None)"

fun base64_values :: "js_string \<Rightarrow> nat list option" where
  "base64_values [] = Some []"
| "base64_values (c # cs) =
     (case base64_value c of
        None \<Rightarrow> None
      | Some n \<Rightarrow> (case base64_values cs of None \<Rightarrow> None | Some ns \<Rightarrow> Some (n # ns)))"

definition strip_padding :: "js_string \<Rightarrow> js_string" where
  "strip_padding d =
     (if length d mod 4 = 0 \<and> d \<noteq> [] \<and> last d = 0x3D then
        (if butlast d \<noteq> [] \<and> last (butlast d) = 0x3D then butlast (butlast d) else butlast d)
      else d)"

fun sextets_to_bytes :: "nat list \<Rightarrow> nat list" where
  "sextets_to_bytes (a # b # c # d # rest) =
     (let n = ((a * 64 + b) * 64 + c) * 64 + d
      in n div 65536 # n div 256 mod 256 # n mod 256 # sextets_to_bytes rest)"
| "sextets_to_bytes [a, b, c] = (let n = ((a * 64 + b) * 64 + c) div 4 in [n div 256, n mod 256])"
| "sextets_to_bytes [a, b] = [(a * 64 + b) div 16]"
| "sextets_to_bytes [a] = []"
| "sextets_to_bytes [] = []"

definition atob :: "js_string \<Rightarrow> js_error + js_string" where
  "atob s =
     (let d = strip_padding (filter (\<lambda>c. \<not> is_ascii_whitespace c) s) in
      if length d mod 4 = 1 then Inl InvalidCharacterError
      else case base64_values d of
             None \<Rightarrow> Inl InvalidCharacterError
           | Some ns \<Rightarrow> Inr (map of_nat (sextets_to_bytes ns)))"

subsection \<open>The decoder of the source\<close>

text \<open>
  \<^verbatim>\<open>decode\<close> copies \<^verbatim>\<open>binaryString.charCodeAt(i)\<close> into a \<^verbatim>\<open>Uint8Array\<close> of the same
  length; storing into it keeps the low 8 bits.
\<close>

definition decode :: "js_string \<Rightarrow> js_error + 8 word list" where
  "decode base64 =
     (case atob base64 of
        Inl e \<Rightarrow> Inl e
      | Inr binaryString \<Rightarrow> Inr (map ucast binaryString))"

text \<open>
  \<^verbatim>\<open>new Int16Array(data.buffer)\<close> views the whole buffer of the byte array as 16-bit
  elements. The constructor throws a \<^verbatim>\<open>RangeError\<close> when the byte length of the buffer is
  not a multiple of the element size 2 (ECMAScript, typed array from an array buffer with
  no length given). Elements are read in the byte order of the platform, little-endian on
  the platforms browsers run on: the first byte of a pair is the low one. An element is
  read as a signed value (\<open>sint\<close>).
\<close>

fun int16_elements :: "8 word list \<Rightarrow> 16 word list" where
  "int16_elements (lo # hi # rest) = (push_bit 8 (ucast hi) OR ucast lo) # int16_elements rest"
| "int16_elements [lo] = []"
| "int16_elements [] = []"

definition Int16Array :: "8 word list \<Rightarrow> js_error + 16 word list" where
  "Int16Array buffer =
     (if length buffer mod 2 \<noteq> 0 then Inl RangeError else Inr (int16_elements buffer))"

text \<open>
  An \<^verbatim>\<open>AudioBuffer\<close>: its channels are arrays of 32-bit floats, modelled as reals (a
  16-bit integer divided by 32768 is a 32-bit float exactly). \<open>frames\<close> is its
  \<^verbatim>\<open>length\<close>, the number of sample frames; \<^verbatim>\<open>duration\<close> is the number of frames over
  the sample rate. \<^verbatim>\<open>ctx.createBuffer(numberOfChannels, length,
  sampleRate)\<close> returns a silent buffer; it throws a \<^verbatim>\<open>NotSupportedError\<close> when an
  argument is zero (Web Audio API: the number of channels, the length and the sample rate
  must each be at least 1 and inside the implementation's range, which for the sample rate
  always includes the 24000 that the source passes).
\<close>

record audio_buffer =
  numberOfChannels :: nat
  frames :: nat
  sampleRate :: nat
  channelData :: "real list list"


definition createBuffer :: "nat \<Rightarrow> nat \<Rightarrow> nat \<Rightarrow> js_error + audio_buffer" where
  "createBuffer numChannels frameCount rate =
     (if numChannels = 0 \<or> frameCount = 0 \<or> rate = 0 then Inl NotSupportedError
      else Inr \<lparr>numberOfChannels = numChannels, frames = frameCount, sampleRate = rate,
                channelData = replicate numChannels (replicate frameCount 0)\<rparr>)"

text \<open>
  The inner loop
  \<^verbatim>\<open>for (let i = 0; i < frameCount; i++) channelData[i] = dataInt16[i * numChannels + channel] / 32768.0\<close>
  for one channel.
\<close>

function fill_channel :: "16 word list \<Rightarrow> nat \<Rightarrow> nat \<Rightarrow> nat \<Rightarrow> nat \<Rightarrow> real list \<Rightarrow> real list" where
  "fill_channel dataInt16 numChannels channel frameCount i samples =
     (if i < frameCount then
        fill_channel dataInt16 numChannels channel frameCount (i + 1)
          (samples[i := real_of_int (sint (dataInt16 ! (i * numChannels + channel))) / 32768])
      else samples)"
  by pat_completeness auto
termination
  by (relation "measure (\<lambda>(d, n, c, frameCount, i, s). frameCount - i)") auto

declare fill_channel.simps [simp del]

text \<open>
  \<^verbatim>\<open>getAudioBufferFromBase64\<close>, with \<^verbatim>\<open>sampleRate = 24000\<close> and \<^verbatim>\<open>numChannels = 1\<close>;
  the outer loop over the channels runs once, for channel 0. A throw of \<^verbatim>\<open>atob\<close>, of
  the \<^verbatim>\<open>Int16Array\<close> constructor or of \<^verbatim>\<open>createBuffer\<close> rejects the promise the
  function returns.
\<close>

definition getAudioBufferFromBase64 :: "js_string \<Rightarrow> js_error + audio_buffer" where
  "getAudioBufferFromBase64 base64 =
     (case decode base64 of
        Inl e \<Rightarrow> Inl e
      | Inr data \<Rightarrow>
          (case Int16Array data of
             Inl e \<Rightarrow> Inl e
           | Inr dataInt16 \<Rightarrow>
               let sampleRate = 24000; numChannels = 1;
                   frameCount = length dataInt16 div numChannels
               in (case createBuffer numChannels frameCount sampleRate of
                     Inl e \<Rightarrow> Inl e
                   | Inr buffer \<Rightarrow>
                       Inr (buffer\<lparr>channelData :=
                              (channelData buffer)[0 :=
                                 fill_channel dataInt16 numChannels 0 frameCount 0
                                   (channelData buffer ! 0)]\<rparr>))))"


subsection \<open>Slide durations of the export\<close>





section \<open>An encoder for the narration payload\<close>

text \<open>
  Modelled from the spec: the repository has no encoder, the narration provider produces
  the payload. The spec fixes the format: "base64-encoded raw 16-bit signed little-endian
  PCM, mono, 24000 Hz", each sample the 16-bit integer that the decoder divides by 32768.
  \<open>quantize\<close> is the 16-bit integer of a sample: the sample times 32768, rounded to the
  nearest integer and clamped to the 16-bit range.
\<close>

definition quantize :: "real \<Rightarrow> 16 word" where
  "quantize x = word_of_int (max (- 32768) (min 32767 (round (x * 32768))))"

text \<open>Modelled from the spec: the two bytes of a 16-bit sample, little-endian (low byte first).\<close>

definition int16_bytes :: "16 word \<Rightarrow> 8 word list" where
  "int16_bytes w = [ucast w, ucast (drop_bit 8 w)]"

text \<open>
  Modelled from the spec: the base64 alphabet (RFC 4648): the code unit of a 6-bit value.
\<close>

definition base64_char :: "nat \<Rightarrow> 16 word" where
  "base64_char n =
     (if n < 26 then of_nat (n + 0x41)
      else if n < 52 then of_nat (n - 26 + 0x61)
      else if n < 62 then of_nat (n - 52 + 0x30)
      else if n = 62 then 0x2B
      else 0x2F)"

text \<open>
  Modelled from the spec: the 6-bit values of a byte sequence: three bytes give four values;
  a final group of two bytes or of one byte is filled with zero bits and gives three or two
  values.
\<close>

fun bytes_to_sextets :: "nat list \<Rightarrow> nat list" where
  "bytes_to_sextets (x # y # z # rest) =
     (let n = (x * 256 + y) * 256 + z
      in n div 262144 # n div 4096 mod 64 # n div 64 mod 64 # n mod 64 # bytes_to_sextets rest)"
| "bytes_to_sextets [x, y] = (let n = (x * 256 + y) * 4 in [n div 4096, n div 64 mod 64, n mod 64])"
| "bytes_to_sextets [x] = (let n = x * 16 in [n div 64, n mod 64])"
| "bytes_to_sextets [] = []"

text \<open>
  Modelled from the spec: base64 encoding of a byte sequence, padded with \<^verbatim>\<open>=\<close> to a
  multiple of four code units.
\<close>

definition base64_encode :: "8 word list \<Rightarrow> js_string" where
  "base64_encode bytes =
     map base64_char (bytes_to_sextets (map unat bytes))
     @ replicate ((3 - length bytes mod 3) mod 3) 0x3D"

text \<open>
  Modelled from the spec: the payload of a buffer of samples: the samples quantized, laid
  out as little-endian byte pairs, base64 encoded.
\<close>

definition encode_pcm :: "real list \<Rightarrow> js_string" where
  "encode_pcm samples = base64_encode (concat (map (\<lambda>x. int16_bytes (quantize x)) samples))"


chapter \<open>Properties\<close>

section \<open>The timeline\<close>

lemma timeline_loop_eq:
  "i \<le> length ds \<Longrightarrow> timeline_loop ds i t acc =
     (acc @ events_from (drop i ds) i t, t + sum_list (map duration (events_from (drop i ds) i t)))"
proof (induction ds i t acc rule: timeline_loop.induct)
  case (1 ds i t acc)
  show ?case
  proof (cases "i < length ds")
    case False
    with 1 show ?thesis by (subst timeline_loop.simps) simp
  next
    case True
    then obtain d rest where dr: "drop i ds = d # rest" "d = ds ! i" "rest = drop (Suc i) ds"
      by (metis Cons_nth_drop_Suc)
    show ?thesis
    proof (cases "int i < int (length ds) - 1")
      case last: False
      then have "rest = []" using True dr by auto
      then show ?thesis using 1 True last dr 
        by (subst timeline_loop.simps) (simp add: Let_def)
    next
      case more: True
      then have "rest \<noteq> []" using dr by auto
      then obtain d' rest' where "rest = d' # rest'" by (cases rest) auto
      then show ?thesis using 1 True more dr
        by (subst timeline_loop.simps) (simp add: Let_def algebra_simps)
    qed
  qed
qed

lemma build_timeline_eq:
  "build_timeline ds = (events_from ds 0 0, sum_list (map duration (events_from ds 0 0)))"
  by (simp add: build_timeline_def timeline_loop_eq)

lemma length_events_from: "length (events_from ds i t) = 2 * length ds - 1"
  by (induction ds i t rule: events_from.induct) auto

lemma contiguous_events_from: "contiguous_from t (events_from ds i t)"
  by (induction ds i t rule: events_from.induct) auto

lemma contiguous_from_nth:
  "contiguous_from t es \<Longrightarrow> Suc j < length es \<Longrightarrow>
     startTime (es ! Suc j) = startTime (es ! j) + duration (es ! j)"
proof (induction es arbitrary: t j)
  case Nil
  then show ?case by simp
next
  case (Cons e es)
  show ?case
  proof (cases j)
    case 0
    with Cons.prems show ?thesis by (cases es) auto
  next
    case (Suc j')
    with Cons.prems Cons.IH [of "t + duration e" j'] show ?thesis by simp
  qed
qed

lemma contiguous_from_hd: "contiguous_from t es \<Longrightarrow> es \<noteq> [] \<Longrightarrow> startTime (es ! 0) = t"
  by (cases es) auto

lemma events_from_even:
  "k < length ds \<Longrightarrow> \<exists>s. events_from ds i t ! (2 * k) = SlideEvent (i + k) s (ds ! k)"
proof (induction ds i t arbitrary: k rule: events_from.induct)
  case (3 d d' ds i t)
  show ?case
  proof (cases k)
    case 0
    then show ?thesis by simp
  next
    case (Suc k')
    with 3 show ?thesis by simp
  qed
qed auto

lemma events_from_odd:
  "Suc k < length ds \<Longrightarrow> \<exists>s. events_from ds i t ! (2 * k + 1) = TransitionEvent (i + k) (i + k + 1) s transitionDuration"
proof (induction ds i t arbitrary: k rule: events_from.induct)
  case (3 d d' ds i t)
  show ?case
  proof (cases k)
    case 0
    then show ?thesis by simp
  next
    case (Suc k')
    with 3 show ?thesis by simp
  qed
qed auto

lemma count_slides_events_from:
  "length (filter is_slide (events_from ds i t)) = length ds"
  by (induction ds i t rule: events_from.induct) auto

lemma count_transitions_events_from:
  "length (filter is_transition (events_from ds i t)) = length ds - 1"
  by (induction ds i t rule: events_from.induct) auto

lemma transitions_events_from:
  "e \<in> set (events_from ds i t) \<Longrightarrow> is_transition e \<Longrightarrow> duration e = transitionDuration"
  by (induction ds i t rule: events_from.induct) auto

text \<open>
  Claim C1. For a non-empty list of slide durations the timeline alternates slide,
  transition, slide, ..., slide: it has \<open>2n - 1\<close> events, event \<open>2k\<close> is the slide event of
  slide \<open>k\<close> with that slide's duration, event \<open>2k + 1\<close> is the transition from \<open>k\<close> to
  \<open>k + 1\<close>, the last event is a slide (no trailing transition), there are \<open>n\<close> slide events
  and \<open>n - 1\<close> transition events; the first event starts at 0, every next event starts at
  the previous event's start plus its duration, and \<open>totalDuration\<close> is the sum of all event
  durations.
\<close>

theorem timeline_alternating_contiguous:
  assumes "slideDurations \<noteq> []"
  shows "case build_timeline slideDurations of (timeline, totalDuration) \<Rightarrow>
           length timeline = 2 * length slideDurations - 1
         \<and> (\<forall>k. k < length slideDurations \<longrightarrow>
               is_slide (timeline ! (2 * k)) \<and> index (timeline ! (2 * k)) = k
               \<and> duration (timeline ! (2 * k)) = slideDurations ! k)
         \<and> (\<forall>k. k + 1 < length slideDurations \<longrightarrow>
               is_transition (timeline ! (2 * k + 1))
               \<and> from_index (timeline ! (2 * k + 1)) = k \<and> to_index (timeline ! (2 * k + 1)) = k + 1)
         \<and> is_slide (last timeline)
         \<and> length (filter is_slide timeline) = length slideDurations
         \<and> length (filter is_transition timeline) = length slideDurations - 1
         \<and> startTime (timeline ! 0) = 0
         \<and> (\<forall>j. j + 1 < length timeline \<longrightarrow>
               startTime (timeline ! (j + 1)) = startTime (timeline ! j) + duration (timeline ! j))
         \<and> totalDuration = sum_list (map duration timeline)"
proof -
  let ?es = "events_from slideDurations 0 0"
  let ?n = "length slideDurations"
  have n: "0 < ?n" using assms by simp
  have len: "length ?es = 2 * ?n - 1" by (rule length_events_from)
  have "0 < length ?es" using len n by linarith
  then have ne: "?es \<noteq> []" by blast
  have slides: "\<forall>k. k < ?n \<longrightarrow> is_slide (?es ! (2 * k)) \<and> index (?es ! (2 * k)) = k
                  \<and> duration (?es ! (2 * k)) = slideDurations ! k"
  proof (intro allI impI)
    fix k assume "k < ?n"
    from events_from_even [OF this, of 0 0] obtain s
      where "?es ! (2 * k) = SlideEvent k s (slideDurations ! k)" by auto
    then show "is_slide (?es ! (2 * k)) \<and> index (?es ! (2 * k)) = k
                  \<and> duration (?es ! (2 * k)) = slideDurations ! k" by simp
  qed
  have trans: "\<forall>k. k + 1 < ?n \<longrightarrow> is_transition (?es ! (2 * k + 1))
               \<and> from_index (?es ! (2 * k + 1)) = k \<and> to_index (?es ! (2 * k + 1)) = k + 1"
  proof (intro allI impI)
    fix k assume "k + 1 < ?n"
    then have "Suc k < ?n" by simp
    from events_from_odd [OF this, of 0 0] obtain s
      where "?es ! (2 * k + 1) = TransitionEvent k (k + 1) s transitionDuration" by auto
    then show "is_transition (?es ! (2 * k + 1))
               \<and> from_index (?es ! (2 * k + 1)) = k \<and> to_index (?es ! (2 * k + 1)) = k + 1" by simp
  qed
  have "length ?es - 1 = 2 * (?n - 1)" using len n by linarith
  moreover have "last ?es = ?es ! (length ?es - 1)"
    using ne by (rule last_conv_nth)
  ultimately have "last ?es = ?es ! (2 * (?n - 1))" by (rule subst)
  moreover have "is_slide (?es ! (2 * (?n - 1)))" using slides n by simp
  ultimately have lst: "is_slide (last ?es)" by simp
  have st0: "startTime (?es ! 0) = 0"
    using contiguous_from_hd [OF contiguous_events_from ne] .
  have adj: "\<forall>j. j + 1 < length ?es \<longrightarrow>
               startTime (?es ! (j + 1)) = startTime (?es ! j) + duration (?es ! j)"
    using contiguous_from_nth [OF contiguous_events_from] by simp
  show ?thesis
    unfolding build_timeline_eq prod.case
    using len slides trans lst st0 adj
    by (simp only: count_slides_events_from count_transitions_events_from simp_thms)
qed

theorem timeline_alternating_contiguous_witness:
  "[3 / 2, 3, 9 / 2] \<noteq> ([] :: real list)
   \<and> build_timeline [3 / 2, 3, 9 / 2] =
       ([SlideEvent 0 0 (3 / 2), TransitionEvent 0 1 (3 / 2) 0, SlideEvent 1 (3 / 2) 3,
         TransitionEvent 1 2 (9 / 2) 0, SlideEvent 2 (9 / 2) (9 / 2)], 9)"
  using timeline_alternating_contiguous [of "[3 / 2, 3, 9 / 2]"]
  by (simp add: build_timeline_eq transitionDuration_def)

text \<open>
  Claim C9. With the configured transition duration 0, the active-event lookup selects a
  transition event at no elapsed time, for any list of slide durations, so no call of the
  render loop takes the transition-drawing branch.
\<close>

theorem transition_never_active:
  "case build_timeline slideDurations of (timeline, totalDuration) \<Rightarrow>
     \<not> (\<exists>e. currentEvent timeline elapsed = Some e \<and> is_transition e)
     \<and> \<not> (\<exists>f t. renderLoop_branch timeline totalDuration elapsed = DrawTransition f t)"
proof -
  let ?es = "events_from slideDurations 0 0"
  have a: "\<not> (\<exists>e. currentEvent ?es elapsed = Some e \<and> is_transition e)"
  proof
    assume "\<exists>e. currentEvent ?es elapsed = Some e \<and> is_transition e"
    then obtain e where e: "currentEvent ?es elapsed = Some e" "is_transition e" by auto
    then have "e \<in> set ?es" "elapsed \<ge> startTime e \<and> elapsed < startTime e + duration e"
      by (auto simp: currentEvent_def find_Some_iff)
    moreover from this e have "duration e = 0" using transitions_events_from
      by (simp add: transitionDuration_def)
    ultimately show False by auto
  qed
  have b: "\<not> (\<exists>f t. renderLoop_branch ?es tot elapsed = DrawTransition f t)" for tot
    using a by (auto simp: renderLoop_branch_def split: option.splits timeline_event.splits if_splits)
  show ?thesis unfolding build_timeline_eq prod.case using a b by simp
qed

text \<open>
  The lookup does select slide events: 2 seconds into the timeline of three slides of 1.5,
  3 and 4.5 seconds the second slide is drawn, and at its end the last frame.
\<close>

lemma renderLoop_branch_example:
  "renderLoop_branch (fst (build_timeline [3 / 2, 3, 9 / 2])) (snd (build_timeline [3 / 2, 3, 9 / 2])) 2
     = DrawSlide 1"
  "renderLoop_branch (fst (build_timeline [3 / 2, 3, 9 / 2])) (snd (build_timeline [3 / 2, 3, 9 / 2])) 9
     = DrawLastFrame"
  by (simp_all add: build_timeline_eq transitionDuration_def renderLoop_branch_def currentEvent_def)

section \<open>The retry policy\<close>

lemma withRetry_loop_spec:
  assumes "a < m" and "c0 = a" and "withRetry_loop f m d a c0 D = (r, c, ds)"
  shows "a < c \<and> c \<le> m
       \<and> ds = D @ map (\<lambda>k. d * 2 ^ (k - 1)) [Suc a..<c]
       \<and> (\<forall>k. a \<le> k \<and> k < c - 1 \<longrightarrow> isl (f k))
       \<and> (case r of Inr v \<Rightarrow> f (c - 1) = Inr v
                   | Inl err \<Rightarrow> c = m \<and> (\<exists>e. f (c - 1) = Inl e \<and> err = Rethrown e))"
  using assms
proof (induction f m d a c0 D arbitrary: r c ds rule: withRetry_loop.induct)
  case (1 f m d a c0 D)
  note run = "1.prems"(3) [unfolded \<open>c0 = a\<close>]
  show ?case
  proof (cases "f a")
    case (Inr v)
    with run "1.prems"(1) have "r = Inr v" "c = Suc a" "ds = D"
      by (simp_all add: withRetry_loop.simps [of f m d a a D])
    with Inr "1.prems"(1) show ?thesis by auto
  next
    case (Inl e)
    show ?thesis
    proof (cases "m \<le> Suc a")
      case True
      with run Inl "1.prems"(1) have "r = Inl (Rethrown e)" "c = Suc a" "ds = D"
        by (simp_all add: withRetry_loop.simps [of f m d a a D])
      with Inl True "1.prems"(1) show ?thesis by auto
    next
      case False
      then have lt: "Suc a < m" by simp
      from run Inl False "1.prems"(1)
      have rec: "withRetry_loop f m d (Suc a) (Suc a) (D @ [d * 2 ^ a]) = (r, c, ds)"
        by (simp add: withRetry_loop.simps [of f m d a a D])
      have ih: "Suc a < c \<and> c \<le> m
         \<and> ds = (D @ [d * 2 ^ a]) @ map (\<lambda>k. d * 2 ^ (k - 1)) [Suc (Suc a)..<c]
         \<and> (\<forall>k. Suc a \<le> k \<and> k < c - 1 \<longrightarrow> isl (f k))
         \<and> (case r of Inr v \<Rightarrow> f (c - 1) = Inr v
                   | Inl err \<Rightarrow> c = m \<and> (\<exists>e. f (c - 1) = Inl e \<and> err = Rethrown e))"
        using "1.IH" [of e "a + 1" "d * 2 ^ (a + 1 - 1)" r c ds] "1.prems"(1,2) Inl False lt rec
        by simp
      then have c: "Suc a < c" by simp
      then have upt: "[Suc a..<c] = Suc a # [Suc (Suc a)..<c]" by (simp add: upt_conv_Cons)
      have all: "\<forall>k. a \<le> k \<and> k < c - 1 \<longrightarrow> isl (f k)"
      proof (intro allI impI)
        fix k assume k: "a \<le> k \<and> k < c - 1"
        show "isl (f k)"
        proof (cases "k = a")
          case True
          with Inl show ?thesis by simp
        next
          case False
          with k ih show ?thesis by simp
        qed
      qed
      from ih c upt all show ?thesis by simp
    qed
  qed
qed

text \<open>
  Claim C5. With the default policy the operation is called at least once and at most 3
  times; the delay before the \<open>k\<close>-th retry is \<open>2000 * 2 ^ (k - 1)\<close>, so the delays waited
  are a prefix of 2000, 4000; every call before the last one failed; a result returned is
  the value of the last call, unchanged; and an error is raised only after 3 calls, and it
  is the error of the third call.
\<close>

theorem withRetry_policy:
  "case withRetry_default asyncFn of (result, calls, delays) \<Rightarrow>
     1 \<le> calls \<and> calls \<le> 3
     \<and> delays = map (\<lambda>k. 2000 * 2 ^ (k - 1)) [1..<calls]
     \<and> delays = take (calls - 1) [2000, 4000]
     \<and> (\<forall>k. k < calls - 1 \<longrightarrow> isl (asyncFn k))
     \<and> (case result of
           Inr v \<Rightarrow> asyncFn (calls - 1) = Inr v
         | Inl err \<Rightarrow> calls = 3 \<and> (\<exists>e. asyncFn 2 = Inl e \<and> err = Rethrown e))"
proof -
  obtain r c ds where run: "withRetry_loop asyncFn 3 2000 0 0 [] = (r, c, ds)"
    by (cases "withRetry_loop asyncFn 3 2000 0 0 []") auto
  from withRetry_loop_spec [OF _ _ run]
  have spec: "0 < c \<and> c \<le> 3
       \<and> ds = [] @ map (\<lambda>k. 2000 * 2 ^ (k - 1)) [Suc 0..<c]
       \<and> (\<forall>k. 0 \<le> k \<and> k < c - 1 \<longrightarrow> isl (asyncFn k))
       \<and> (case r of Inr v \<Rightarrow> asyncFn (c - 1) = Inr v
                   | Inl err \<Rightarrow> c = 3 \<and> (\<exists>e. asyncFn (c - 1) = Inl e \<and> err = Rethrown e))"
    by simp
  then have "c = 1 \<or> c = 2 \<or> c = 3" by arith
  then have tk: "map (\<lambda>k. 2000 * 2 ^ (k - 1)) [Suc 0..<c] = take (c - 1) [2000, 4000 :: nat]"
    by (auto simp: upt_conv_Cons)
  from spec tk show ?thesis
    unfolding withRetry_default_def withRetry_def run prod.case
    by (auto split: sum.splits)
qed

theorem withRetry_policy_witness:
  "withRetry_default (\<lambda>k. if k < 2 then Inl ''unavailable'' else (Inr (k + 40) :: string + nat))
     = (Inr 42, 3, [2000, 4000])
   \<and> withRetry_default (\<lambda>k. (Inl k :: nat + nat)) = (Inl (Rethrown 2), 3, [2000, 4000])"
  using withRetry_policy [of "\<lambda>k. if k < 2 then Inl ''unavailable'' else (Inr (k + 40) :: string + nat)"]
  by (simp add: withRetry_default_def withRetry_def withRetry_loop.simps)

section \<open>Text segmentation\<close>

lemma length_trim_le: "length (trim s) \<le> length s"
proof -
  have "length (trim s) \<le> length (dropWhile is_js_whitespace s)"
    unfolding trim_def using length_dropWhile_le [of is_js_whitespace "rev (dropWhile is_js_whitespace s)"]
    by simp
  also have "\<dots> \<le> length s" by (rule length_dropWhile_le)
  finally show ?thesis .
qed

lemma fallback_split_entries:
  "s \<in> set (fallback_split text) \<Longrightarrow> 2 < length (trim s) \<and> 2 < length s \<and> trim s \<noteq> []"
  using length_trim_le [of s] by (auto simp: fallback_split_def)

lemma splitTextIntoSentences_cases:
  "splitTextIntoSentences gc parse text = fallback_split text
   \<or> (\<exists>ss. splitTextIntoSentences gc parse text = filter (\<lambda>s. trim s \<noteq> []) ss)"
  by (auto simp: splitTextIntoSentences_def split: sum.splits option.splits json.splits)

text \<open>
  Claim C3, as amended. For every input text and every behaviour of the provider and of the
  JSON parser, every string that the segmentation returns is non-blank. Whenever the
  provider call fails (all its attempts throw), the result is the fallback splitter's, and
  every entry of it has more than 2 code units, also after trimming, so none is blank. The
  result itself may be empty: the orchestrator hands a list of lines on only when it is
  non-empty, and turns an empty one, for a non-blank input, into the error
  \<open>NoMeaningfulLines\<close>.
\<close>

theorem segmentText_entries:
  "(\<forall>s. s \<in> set (splitTextIntoSentences generateContent JSON_parse text) \<longrightarrow> trim s \<noteq> [])
   \<and> (\<forall>error. fst (withRetry_default generateContent) = Inl error \<longrightarrow>
         splitTextIntoSentences generateContent JSON_parse text = fallback_split text
         \<and> (\<forall>s. s \<in> set (fallback_split text) \<longrightarrow>
               2 < length (trim s) \<and> 2 < length s \<and> trim s \<noteq> []))
   \<and> (\<forall>lines. generateSlides_lines generateContent JSON_parse text = Segmented lines \<longrightarrow>
         lines = splitTextIntoSentences generateContent JSON_parse text \<and> lines \<noteq> [])
   \<and> (trim text \<noteq> [] \<and> splitTextIntoSentences generateContent JSON_parse text = [] \<longrightarrow>
         generateSlides_lines generateContent JSON_parse text = NoMeaningfulLines)"
proof -
  have a: "\<forall>s. s \<in> set (splitTextIntoSentences generateContent JSON_parse text) \<longrightarrow> trim s \<noteq> []"
    using splitTextIntoSentences_cases [of generateContent JSON_parse "text"]
      fallback_split_entries [of _ "text"] by auto
  have b: "\<forall>error. fst (withRetry_default generateContent) = Inl error \<longrightarrow>
         splitTextIntoSentences generateContent JSON_parse text = fallback_split text
         \<and> (\<forall>s. s \<in> set (fallback_split text) \<longrightarrow>
               2 < length (trim s) \<and> 2 < length s \<and> trim s \<noteq> [])"
    using fallback_split_entries [of _ "text"] by (simp add: splitTextIntoSentences_def)
  have c: "\<forall>lines. generateSlides_lines generateContent JSON_parse text = Segmented lines \<longrightarrow>
         lines = splitTextIntoSentences generateContent JSON_parse text \<and> lines \<noteq> []"
    by (auto simp: generateSlides_lines_def Let_def split: if_splits)
  have d: "trim text \<noteq> [] \<and> splitTextIntoSentences generateContent JSON_parse text = [] \<longrightarrow>
         generateSlides_lines generateContent JSON_parse text = NoMeaningfulLines"
    by (simp add: generateSlides_lines_def)
  from a b c d show ?thesis by blast
qed

lemma always_failing: "fst (withRetry_default (\<lambda>k. Inl e)) = Inl (Rethrown e)"
  by (simp add: withRetry_default_def withRetry_def withRetry_loop.simps)

theorem segmentText_entries_witness:
  "fst (withRetry_default (\<lambda>k. (Inl () :: unit + js_string option))) = Inl (Rethrown ())
   \<and> splitTextIntoSentences (\<lambda>k. (Inl () :: unit + js_string option)) (\<lambda>s. (Inl () :: unit + json))
        (js ''One. Two lines.'') = [js ''One'', js '' Two lines'']
   \<and> generateSlides_lines (\<lambda>k. (Inl () :: unit + js_string option)) (\<lambda>s. (Inl () :: unit + json))
        (js ''One. Two lines.'') = Segmented [js ''One'', js '' Two lines'']"
  using segmentText_entries [of "\<lambda>k. (Inl () :: unit + js_string option)" "\<lambda>s. (Inl () :: unit + json)" "js ''One. Two lines.''"]
  by (simp add: always_failing splitTextIntoSentences_def generateSlides_lines_def
      fallback_split_def js_def is_newline_or_period_def trim_def is_js_whitespace_def)

text \<open>
  Claim C3 as stated fails: on the non-empty text \<^verbatim>\<open>Hi.\<close> the segmentation returns the
  empty list, both when the provider fails (the fallback drops the only fragment, of 2
  code units) and when the provider answers with an empty array.
\<close>

theorem segmentText_empty_counterexample:
  "js ''Hi.'' \<noteq> []
   \<and> splitTextIntoSentences (\<lambda>k. (Inl () :: unit + js_string option)) (\<lambda>s. (Inl () :: unit + json))
        (js ''Hi.'') = []
   \<and> splitTextIntoSentences (\<lambda>k. (Inr (Some (js ''[]'')) :: unit + js_string option))
        (\<lambda>s. (Inr (JArray []) :: unit + json)) (js ''Hi.'') = []"
  by (simp add: always_failing splitTextIntoSentences_def withRetry_default_def withRetry_def withRetry_loop.simps
      fallback_split_def js_def is_newline_or_period_def trim_def is_js_whitespace_def)

text \<open>
  Claim C4, as amended. When the provider call fails, the literal input has a single period,
  at its end, and no newline, so the fallback returns exactly one segment: the input
  without its final period. Commas do not split.
\<close>

theorem fallback_woods:
  "splitTextIntoSentences (\<lambda>k. (Inl error :: 'e + js_string option)) (JSON_parse :: js_string \<Rightarrow> 'p + json)
     (js ''The woods are lovely, dark and deep, but I have promises to keep.'')
   = [js ''The woods are lovely, dark and deep, but I have promises to keep'']"
  by (simp add: always_failing splitTextIntoSentences_def
      fallback_split_def js_def is_newline_or_period_def trim_def is_js_whitespace_def)

text \<open>Claim C4 as stated fails: the fallback does not return two segments for that input.\<close>

theorem fallback_woods_counterexample:
  "length (splitTextIntoSentences (\<lambda>k. (Inl () :: unit + js_string option)) (\<lambda>s. (Inl () :: unit + json))
     (js ''The woods are lovely, dark and deep, but I have promises to keep.'')) \<noteq> 2"
  by (simp add: always_failing splitTextIntoSentences_def
      fallback_split_def js_def is_newline_or_period_def trim_def is_js_whitespace_def)

section \<open>Regeneration of a single slide\<close>

lemma map_update_ids:
  "map slide_id (map (\<lambda>s. if slide_id s = k then f s else s) ss) = map slide_id ss"
  if "\<And>s. slide_id (f s) = slide_id s"
  using that by (induction ss) auto

lemma handleRegenerateImage_ids:
  "map slide_id (handleRegenerateImage gi ctx ss i) = map slide_id ss"
  by (simp add: handleRegenerateImage_def Let_def map_update_ids comp_def split: sum.splits)

lemma handleRegenerateTranslation_ids:
  "map slide_id (handleRegenerateTranslation tt ctx ss i) = map slide_id ss"
  by (simp add: handleRegenerateTranslation_def Let_def comp_def split: sum.splits)

lemma handleRegenerateScript_ids:
  "map slide_id (handleRegenerateScript ge gs ctx ss i) = map slide_id ss"
  by (simp add: handleRegenerateScript_def Let_def comp_def split: sum.splits)

lemma list_update_ids:
  assumes "i < length ss" and "slide_id x = slide_id (ss ! i)"
  shows "map slide_id (ss[i := x]) = map slide_id ss"
proof -
  have "map slide_id (ss[i := x]) = (map slide_id ss)[i := (map slide_id ss) ! i]"
    using assms by (simp add: map_update)
  then show ?thesis by (simp only: list_update_id)
qed

lemma lesson_slides_ids: "lesson_slides ss \<Longrightarrow> map slide_id ss = [0..<length ss]"
proof (induction rule: lesson_slides.induct)
  case (image_set newSlides i u)
  then show ?case by (simp add: list_update_ids)
next
  case (audio_set newSlides i a)
  then show ?case by (simp add: list_update_ids)
next
  case (image_regenerated slides gi ctx i)
  then show ?case using handleRegenerateImage_ids [of gi ctx slides i]
    by (metis length_map)
next
  case (translation_regenerated slides tt ctx i)
  then show ?case using handleRegenerateTranslation_ids [of tt ctx slides i]
    by (metis length_map)
next
  case (script_regenerated slides ge gs ctx i)
  then show ?case using handleRegenerateScript_ids [of ge gs ctx slides i]
    by (metis length_map)
qed simp_all

lemma ids_nth: "map slide_id ss = [0..<length ss] \<Longrightarrow> j < length ss \<Longrightarrow> slide_id (ss ! j) = j"
  by (metis add_0 length_map nth_map nth_upt)

lemma map_update_frame:
  assumes ids: "map slide_id ss = [0..<length ss]" and i: "i < length ss"
  shows "map (\<lambda>s. if slide_id s = slide_id (ss ! i) then f s else s) ss = ss[i := f (ss ! i)]"
proof (rule nth_equalityI)
  show "length (map (\<lambda>s. if slide_id s = slide_id (ss ! i) then f s else s) ss) = length (ss[i := f (ss ! i)])"
    by simp
next
  fix j assume "j < length (map (\<lambda>s. if slide_id s = slide_id (ss ! i) then f s else s) ss)"
  then have j: "j < length ss" by simp
  show "map (\<lambda>s. if slide_id s = slide_id (ss ! i) then f s else s) ss ! j = ss[i := f (ss ! i)] ! j"
    using j i ids_nth [OF ids j] ids_nth [OF ids i] by (auto simp: nth_list_update)
qed

text \<open>
  Claim C10. For every slide sequence the application can hold, every current index and
  every behaviour of the services, each regeneration handler returns a sequence of the
  same length in which every slide at another position is unchanged, and the slide at the
  current position is the old one with at most the regenerated fields replaced
  (\<open>imageUrl\<close>; \<open>hindi\<close>; \<open>script\<close> and \<open>audioData\<close>): its id, its position and its other
  fields are unchanged, whether the services return or throw.
\<close>

theorem regenerate_frame:
  assumes "lesson_slides slides"
  shows "(let ss = handleRegenerateImage generateImage contextText slides i in
            length ss = length slides
          \<and> (\<forall>j. j < length slides \<and> j \<noteq> i \<longrightarrow> ss ! j = slides ! j)
          \<and> (i < length slides \<longrightarrow> (\<exists>u. ss ! i = (slides ! i)\<lparr>imageUrl := u\<rparr>)))
       \<and> (let ss = handleRegenerateTranslation translateText contextText slides i in
            length ss = length slides
          \<and> (\<forall>j. j < length slides \<and> j \<noteq> i \<longrightarrow> ss ! j = slides ! j)
          \<and> (i < length slides \<longrightarrow> (\<exists>h. ss ! i = (slides ! i)\<lparr>hindi := h\<rparr>)))
       \<and> (let ss = handleRegenerateScript generateExplanation generateSpeech contextText slides i in
            length ss = length slides
          \<and> (\<forall>j. j < length slides \<and> j \<noteq> i \<longrightarrow> ss ! j = slides ! j)
          \<and> (i < length slides \<longrightarrow> (\<exists>sc a. ss ! i = (slides ! i)\<lparr>script := sc, audioData := a\<rparr>)))"
proof -
  note ids = lesson_slides_ids [OF assms]
  have same_img: "\<exists>u. s = s\<lparr>imageUrl := u\<rparr>" for s :: slide
    by (rule exI [of _ "imageUrl s"]) simp
  have same_hin: "\<exists>h. s = s\<lparr>hindi := h\<rparr>" for s :: slide
    by (rule exI [of _ "hindi s"]) simp
  have same_scr: "\<exists>sc a. s = s\<lparr>script := sc, audioData := a\<rparr>" for s :: slide
    by (rule exI [of _ "script s"], rule exI [of _ "audioData s"]) simp
  show ?thesis
  proof (cases "i < length slides")
    case False
    then show ?thesis
      by (simp add: handleRegenerateImage_def handleRegenerateTranslation_def
          handleRegenerateScript_def)
  next
    case True
    have img: "handleRegenerateImage generateImage contextText slides i = slides
       \<or> (\<exists>u. handleRegenerateImage generateImage contextText slides i
               = slides[i := (slides ! i)\<lparr>imageUrl := u\<rparr>])"
      using True by (auto simp: handleRegenerateImage_def Let_def map_update_frame [OF ids True]
          split: sum.splits)
    have tr: "handleRegenerateTranslation translateText contextText slides i = slides
       \<or> (\<exists>h. handleRegenerateTranslation translateText contextText slides i
               = slides[i := (slides ! i)\<lparr>hindi := h\<rparr>])"
      using True by (auto simp: handleRegenerateTranslation_def Let_def map_update_frame [OF ids True]
          split: sum.splits)
    have sc: "handleRegenerateScript generateExplanation generateSpeech contextText slides i = slides
       \<or> (\<exists>sc a. handleRegenerateScript generateExplanation generateSpeech contextText slides i
               = slides[i := (slides ! i)\<lparr>script := sc, audioData := a\<rparr>])"
      using True by (auto simp: handleRegenerateScript_def Let_def map_update_frame [OF ids True]
          split: sum.splits)
    from img have 1: "let ss = handleRegenerateImage generateImage contextText slides i in
            length ss = length slides
          \<and> (\<forall>j. j < length slides \<and> j \<noteq> i \<longrightarrow> ss ! j = slides ! j)
          \<and> (i < length slides \<longrightarrow> (\<exists>u. ss ! i = (slides ! i)\<lparr>imageUrl := u\<rparr>))"
      using True same_img by (auto simp: Let_def)
    from tr have 2: "let ss = handleRegenerateTranslation translateText contextText slides i in
            length ss = length slides
          \<and> (\<forall>j. j < length slides \<and> j \<noteq> i \<longrightarrow> ss ! j = slides ! j)
          \<and> (i < length slides \<longrightarrow> (\<exists>h. ss ! i = (slides ! i)\<lparr>hindi := h\<rparr>))"
      using True same_hin by (auto simp: Let_def)
    from sc have 3: "let ss = handleRegenerateScript generateExplanation generateSpeech contextText slides i in
            length ss = length slides
          \<and> (\<forall>j. j < length slides \<and> j \<noteq> i \<longrightarrow> ss ! j = slides ! j)
          \<and> (i < length slides \<longrightarrow> (\<exists>sc a. ss ! i = (slides ! i)\<lparr>script := sc, audioData := a\<rparr>))"
      using True same_scr by (auto simp: Let_def) blast
    from 1 2 3 show ?thesis by blast
  qed
qed


theorem regenerate_frame_witness:
  "lesson_slides
     [\<lparr>slide_id = 0, english = js ''One'', hindi = js ''ek'', imageUrl = None,
        script = js ''s'', audioData = None\<rparr>,
      \<lparr>slide_id = 1, english = js ''Two'', hindi = js ''do'', imageUrl = None,
        script = js ''t'', audioData = None\<rparr>]
   \<and> handleRegenerateImage (\<lambda>e s c. (Inr (Some (js ''png'')) :: unit + js_string option)) []
       [\<lparr>slide_id = 0, english = js ''One'', hindi = js ''ek'', imageUrl = None,
          script = js ''s'', audioData = None\<rparr>,
        \<lparr>slide_id = 1, english = js ''Two'', hindi = js ''do'', imageUrl = None,
          script = js ''t'', audioData = None\<rparr>] 1
     = [\<lparr>slide_id = 0, english = js ''One'', hindi = js ''ek'', imageUrl = None,
          script = js ''s'', audioData = None\<rparr>,
        \<lparr>slide_id = 1, english = js ''Two'', hindi = js ''do'', imageUrl = Some (js ''png''),
          script = js ''t'', audioData = None\<rparr>]"
proof -
  let ?s0 = "\<lparr>slide_id = 0, english = js ''One'', hindi = js ''ek'', imageUrl = None,
        script = js ''s'', audioData = None\<rparr>"
  let ?s1 = "\<lparr>slide_id = 1, english = js ''Two'', hindi = js ''do'', imageUrl = None,
        script = js ''t'', audioData = None\<rparr>"
  have "lesson_slides ([] @ [?s0])"
    using lesson_slides.pushed [OF lesson_slides.cleared, of "js ''One''" "js ''ek''" "js ''s''"]
    by simp
  from lesson_slides.pushed [OF this, of "js ''Two''" "js ''do''" "js ''t''"]
  have r: "lesson_slides [?s0, ?s1]" by simp
  show ?thesis
    using r regenerate_frame [OF r, of "\<lambda>e s c. (Inr (Some (js ''png'')) :: unit + js_string option)" "[]" 1]
    by (simp add: handleRegenerateImage_def)
qed

section \<open>Text auto-fit layout\<close>

lemma fit_loop_step:
  "10 \<le> sz \<Longrightarrow> fit_loop m slide sz =
     (if fits m slide sz then layout_at m slide sz else fit_loop m slide (sz - 2))"
  by (subst fit_loop.simps) (simp add: fits_def Let_def)

lemma fit_loop_stop: "sz < 10 \<Longrightarrow> fit_loop m slide sz = initial_layout"
  by (subst fit_loop.simps) simp

lemma createTextCache_layout_find:
  "createTextCache_layout m slide =
     (case find (fits m slide) tried_sizes of
        Some sz \<Rightarrow> layout_at m slide sz
      | None \<Rightarrow> initial_layout)"
  by (simp add: createTextCache_layout_def tried_sizes_def fit_loop_step fit_loop_stop)

lemma tried_sizes_step: "tried_sizes = map (\<lambda>k. 48 - 2 * k) [0..<20]"
  by (simp add: tried_sizes_def upt_conv_Cons)

lemma tried_sizes_decreasing: "sorted_wrt (>) tried_sizes"
  by (simp add: tried_sizes_def)

lemma find_first:
  "(\<forall>y. y \<in> set xs \<longrightarrow> \<not> P y) \<Longrightarrow> P x \<Longrightarrow> find P (xs @ x # ys) = Some x"
  by (induction xs) auto

text \<open>
  The first half of claim C8 holds: the sizes tried are 48, 46, ..., 10, in this order, and
  when the text fits at one of them the layout is the one computed at the largest size at
  which it fits.
\<close>

lemma createTextCache_largest_fitting:
  assumes "sz \<in> set tried_sizes" and "fits m slide sz"
    and "\<forall>s'. s' \<in> set tried_sizes \<and> sz < s' \<longrightarrow> \<not> fits m slide s'"
  shows "createTextCache_layout m slide = layout_at m slide sz"
proof -
  from assms(1) obtain xs ys where split: "tried_sizes = xs @ sz # ys"
    by (auto simp: in_set_conv_decomp)
  have "\<forall>y. y \<in> set xs \<longrightarrow> sz < y"
    using tried_sizes_decreasing unfolding split by (simp add: sorted_wrt_append)
  then have "\<forall>y. y \<in> set xs \<longrightarrow> \<not> fits m slide y"
    using assms(3) unfolding split by simp
  then have "find (fits m slide) tried_sizes = Some sz"
    unfolding split using assms(2) by (rule find_first)
  then show ?thesis by (simp add: createTextCache_layout_find)
qed

text \<open>
  Claim C8, second half: what the code does when the text fits at none of the tried sizes.
  The loop ends without an assignment, so the layout drawn is the initial one: font size
  0 and no lines, hence no \<^verbatim>\<open>fillText\<close> call at all. It is not the layout of the smallest
  tried size 10, which the claim states.
\<close>

theorem createTextCache_nothing_fits:
  assumes "\<forall>sz. sz \<in> set tried_sizes \<longrightarrow> \<not> fits measureText slide sz"
  shows "createTextCache_layout measureText slide = initial_layout
       \<and> finalEnglishFontSize (createTextCache_layout measureText slide) = 0
       \<and> englishLines (createTextCache_layout measureText slide) = []
       \<and> hindiLines (createTextCache_layout measureText slide) = []
       \<and> fillText_calls (createTextCache_layout measureText slide) = []
       \<and> createTextCache_layout measureText slide \<noteq> layout_at measureText slide 10"
proof -
  have "find (fits measureText slide) tried_sizes = None"
    using assms by (simp add: find_None_iff)
  then have init: "createTextCache_layout measureText slide = initial_layout"
    by (simp add: createTextCache_layout_find)
  have "finalEnglishFontSize (layout_at measureText slide 10) = 10"
    by (simp add: layout_at_def Let_def)
  moreover have "finalEnglishFontSize initial_layout = 0"
    by (simp add: initial_layout_def)
  ultimately have "initial_layout \<noteq> layout_at measureText slide 10"
    by (metis zero_neq_numeral)
  with init show ?thesis
    by (simp add: initial_layout_def fillText_calls_def)
qed

theorem createTextCache_nothing_fits_witness:
  "createTextCache_layout (\<lambda>f s. 500 * real (length s))
     \<lparr>slide_id = 0,
      english = js ''a a a a a a a a a a a a a a a a a a a a a a a a a a a a a a a a a a a a a a a a a a a a a a a a a a a a a a a a a a a a a a a a a a a a a a a a a a a a a'',
      hindi = [], imageUrl = None, script = [], audioData = None\<rparr>
   = \<lparr>finalEnglishFontSize = 0, finalHindiFontSize = 0, totalTextHeight = 0,
      englishLines = [], hindiLines = []\<rparr>"
proof -
  let ?m = "\<lambda>(f :: font) (s :: js_string). 500 * real (length s)"
  let ?slide = "\<lparr>slide_id = 0,
      english = js ''a a a a a a a a a a a a a a a a a a a a a a a a a a a a a a a a a a a a a a a a a a a a a a a a a a a a a a a a a a a a a a a a a a a a a a a a a a a a a'',
      hindi = [], imageUrl = None, script = [], audioData = None\<rparr>"
  have lines: "length (calculateLines ?m (Poppins sz) (english ?slide) MAX_TEXT_WIDTH) = 77" for sz
    by (simp add: calculateLines_def MAX_TEXT_WIDTH_def js_def)
  have none: "\<forall>sz. sz \<in> set tried_sizes \<longrightarrow> \<not> fits ?m ?slide sz"
    unfolding fits_def layout_at_def Let_def text_layout.simps lines
    by (simp add: calculateLines_def MAX_TEXT_HEIGHT_def tried_sizes_def)
  from createTextCache_nothing_fits [OF none] show ?thesis
    by (simp add: initial_layout_def)
qed

section \<open>Audio decoding\<close>

lemma length_int16_elements: "length (int16_elements bytes) = length bytes div 2"
  by (induction bytes rule: int16_elements.induct) auto

lemma int16_elements_nth:
  "i < length bytes div 2 \<Longrightarrow>
     int16_elements bytes ! i = push_bit 8 (ucast (bytes ! (2 * i + 1))) OR ucast (bytes ! (2 * i))"
proof (induction bytes arbitrary: i rule: int16_elements.induct)
  case (1 lo hi rest)
  then show ?case by (cases i) auto
qed auto

lemma fill_channel_eq:
  "length samples = n \<Longrightarrow> i \<le> n \<Longrightarrow> n \<le> length d \<Longrightarrow>
     fill_channel d 1 0 n i samples =
       take i samples @ map (\<lambda>w. real_of_int (sint w) / 32768) (drop i (take n d))"
proof (induction d "1 :: nat" "0 :: nat" n i samples rule: fill_channel.induct)
  case (1 d n i samples)
  show ?case
  proof (cases "i < n")
    case False
    with 1 show ?thesis by (subst fill_channel.simps) simp
  next
    case True
    have dr: "drop i (take n d) = d ! i # drop (Suc i) (take n d)"
      using True "1.prems" by (metis Cons_nth_drop_Suc length_take min.absorb2 nth_take)
    have tk: "take (Suc i) (samples[i := v]) = take i samples @ [v]" for v
      using True "1.prems" by (simp add: take_Suc_conv_app_nth)
    from True "1.prems" "1.hyps" [OF True] show ?thesis
      by (subst fill_channel.simps) (simp add: dr tk)
  qed
qed

lemma getAudioBufferFromBase64_decoded:
  assumes "decode base64 = Inr bytes"
  shows "getAudioBufferFromBase64 base64 =
     (if odd (length bytes) then Inl RangeError
      else if bytes = [] then Inl NotSupportedError
      else Inr \<lparr>numberOfChannels = 1, frames = length bytes div 2, sampleRate = 24000,
                channelData = [map (\<lambda>w. real_of_int (sint w) / 32768) (int16_elements bytes)]\<rparr>)"
proof (cases "odd (length bytes)")
  case True
  then show ?thesis using assms
    by (simp add: getAudioBufferFromBase64_def Int16Array_def odd_iff_mod_2_eq_one)
next
  case False
  note even = this
  show ?thesis
  proof (cases "bytes = []")
    case True
    then show ?thesis using assms
      by (simp add: getAudioBufferFromBase64_def Int16Array_def createBuffer_def)
  next
    case False
    with even have pos: "0 < length bytes div 2" by (cases bytes rule: int16_elements.cases) auto
    have fill: "fill_channel (int16_elements bytes) 1 0 (length bytes div 2) 0
                  (replicate (length bytes div 2) 0)
                = map (\<lambda>w. real_of_int (sint w) / 32768) (int16_elements bytes)"
      using fill_channel_eq [of "replicate (length bytes div 2) 0" "length bytes div 2" 0 "int16_elements bytes"]
      by (simp add: length_int16_elements)
    have one: "replicate 1 x = [x]" for x :: "real list" by simp
    show ?thesis using assms even False pos
      by (simp add: getAudioBufferFromBase64_def Int16Array_def createBuffer_def
          length_int16_elements fill Let_def one del: One_nat_def)
  qed
qed

lemma getAudioBufferFromBase64_undecoded:
  "decode base64 = Inl e \<Longrightarrow> getAudioBufferFromBase64 base64 = Inl e"
  by (simp add: getAudioBufferFromBase64_def)


subsection \<open>The decoder inverts the encoder\<close>

lemma sextets_recombine:
  fixes n :: nat
  shows "((n div 262144 * 64 + n div 4096 mod 64) * 64 + n div 64 mod 64) * 64 + n mod 64 = n"
proof -
  have b: "n div 4096 = n div 64 div 64" by (simp add: div_mult2_eq)
  have c: "n div 262144 = n div 64 div 64 div 64" by (simp add: div_mult2_eq)
  show ?thesis unfolding b c by (simp only: div_mult_mod_eq)
qed

lemma bytes_split:
  fixes x y z :: nat
  assumes "y < 256" "z < 256"
  shows "((x * 256 + y) * 256 + z) div 65536 = x"
    and "((x * 256 + y) * 256 + z) div 256 mod 256 = y"
    and "((x * 256 + y) * 256 + z) mod 256 = z"
proof -
  have d: "((x * 256 + y) * 256 + z) div 256 = x * 256 + y" using assms by simp
  have "((x * 256 + y) * 256 + z) div 65536 = ((x * 256 + y) * 256 + z) div 256 div 256"
    by (simp add: div_mult2_eq)
  then show "((x * 256 + y) * 256 + z) div 65536 = x" unfolding d using assms by simp
  show "((x * 256 + y) * 256 + z) div 256 mod 256 = y" unfolding d using assms by simp
  show "((x * 256 + y) * 256 + z) mod 256 = z" using assms by (simp only: mod_mult_self3 mod_less)
qed


lemma base64_value_char_all:
  "list_all (\<lambda>n. base64_value (base64_char n) = Some n) [0..<64]"
  by code_simp

lemma base64_value_char: "n < 64 \<Longrightarrow> base64_value (base64_char n) = Some n"
  using base64_value_char_all by (simp add: list_all_iff)

lemma base64_value_not_padding: "base64_value 0x3D = None"
  by (simp add: base64_value_def)

lemma base64_value_not_whitespace: "is_ascii_whitespace c \<Longrightarrow> base64_value c = None"
  by (auto simp: is_ascii_whitespace_def base64_value_def)

lemma int16_bytes_elements:
  "push_bit 8 (ucast (ucast (drop_bit 8 w) :: 8 word)) OR ucast (ucast w :: 8 word) = (w :: 16 word)"
  by (rule bit_word_eqI) (auto simp: bit_simps)

lemma ucast_of_nat_unat: "(ucast (of_nat (unat b) :: 16 word) :: 8 word) = b"
proof -
  have "(ucast (ucast b :: 16 word) :: 8 word) = b"
    by (rule bit_word_eqI) (auto simp: bit_simps)
  then show ?thesis by simp
qed


lemma sextets_recombine3:
  fixes n :: nat
  shows "((n div 4096 * 64 + n div 64 mod 64) * 64 + n mod 64) = n"
proof -
  have b: "n div 4096 = n div 64 div 64" by (simp add: div_mult2_eq)
  show ?thesis unfolding b by (simp only: div_mult_mod_eq)
qed

lemma sextets_bytes_roundtrip:
  "\<forall>b. b \<in> set bs \<longrightarrow> b < 256 \<Longrightarrow> sextets_to_bytes (bytes_to_sextets bs) = bs"
proof (induction bs rule: bytes_to_sextets.induct)
  case (1 x y z rest)
  then have lt: "y < 256" "z < 256" and rest: "sextets_to_bytes (bytes_to_sextets rest) = rest"
    by simp_all
  show ?case
    by (simp only: bytes_to_sextets.simps sextets_to_bytes.simps Let_def sextets_recombine
        bytes_split [OF lt] rest)
next
  case (2 x y)
  then have lt: "y < 256" by simp
  have "(x * 256 + y) * 4 div 4 = x * 256 + y" by simp
  moreover have "(x * 256 + y) div 256 = x" "(x * 256 + y) mod 256 = y" using lt by simp_all
  ultimately show ?case
    by (simp only: bytes_to_sextets.simps sextets_to_bytes.simps Let_def sextets_recombine3)
next
  case (3 x)
  have "x * 16 div 64 * 64 + x * 16 mod 64 = x * 16" by (simp only: div_mult_mod_eq)
  moreover have "x * 16 div 16 = x" by simp
  ultimately show ?case
    by (simp only: bytes_to_sextets.simps sextets_to_bytes.simps Let_def)
qed simp

lemma sextets_bound:
  "\<forall>b. b \<in> set bs \<longrightarrow> b < 256 \<Longrightarrow> \<forall>n. n \<in> set (bytes_to_sextets bs) \<longrightarrow> n < 64"
proof (induction bs rule: bytes_to_sextets.induct)
  case (1 x y z rest)
  then have lt: "x < 256" "y < 256" "z < 256" by simp_all
  then have "(x * 256 + y) * 256 + z < 16777216" by simp
  then have "((x * 256 + y) * 256 + z) div 262144 < 64" by (simp add: less_mult_imp_div_less)
  with 1 show ?case by (auto simp: Let_def)
next
  case (2 x y)
  then have lt: "x < 256" "y < 256" by simp_all
  then have "(x * 256 + y) * 4 < 262144" by simp
  then have "(x * 256 + y) * 4 div 4096 < 64" by (simp add: less_mult_imp_div_less)
  then show ?case by (auto simp: Let_def)
next
  case (3 x)
  then have "x * 16 < 4096" by simp
  then have "x * 16 div 64 < 64" by (simp add: less_mult_imp_div_less)
  then show ?case by (auto simp: Let_def)
qed simp

lemma length_bytes_to_sextets:
  "length (bytes_to_sextets bs) = 4 * (length bs div 3) + (if length bs mod 3 = 0 then 0 else length bs mod 3 + 1)"
  by (induction bs rule: bytes_to_sextets.induct) (auto simp: Let_def)

lemma base64_values_chars:
  "\<forall>n. n \<in> set ns \<longrightarrow> n < 64 \<Longrightarrow> base64_values (map base64_char ns) = Some ns"
  by (induction ns) (auto simp: base64_value_char)

lemma base64_char_not_padding: "n < 64 \<Longrightarrow> base64_char n \<noteq> 0x3D"
  using base64_value_char [of n] base64_value_not_padding by auto

lemma base64_char_not_whitespace: "n < 64 \<Longrightarrow> \<not> is_ascii_whitespace (base64_char n)"
  using base64_value_char [of n] base64_value_not_whitespace [of "base64_char n"] by auto


lemma strip_padding_encoded:
  fixes bs :: "nat list"
  assumes small: "\<forall>b. b \<in> set bs \<longrightarrow> b < 256"
  shows "strip_padding (map base64_char (bytes_to_sextets bs)
           @ replicate ((3 - length bs mod 3) mod 3) 0x3D)
         = map base64_char (bytes_to_sextets bs)"
proof -
  let ?sx = "bytes_to_sextets bs"
  let ?cs = "map base64_char ?sx"
  have len: "length ?cs = 4 * (length bs div 3) + (if length bs mod 3 = 0 then 0 else length bs mod 3 + 1)"
    by (simp add: length_bytes_to_sextets)
  have last_cs: "last ?cs \<noteq> 0x3D" if "?cs \<noteq> []"
  proof -
    from that have ne: "?sx \<noteq> []" by simp
    then have "last ?sx \<in> set ?sx" by (rule last_in_set)
    then have "last ?sx < 64" using sextets_bound [OF small] by blast
    then have "base64_char (last ?sx) \<noteq> 0x3D" by (rule base64_char_not_padding)
    then show ?thesis using ne by (simp add: last_map)
  qed
  have "length bs mod 3 = 0 \<or> length bs mod 3 = 1 \<or> length bs mod 3 = 2" by linarith
  then show ?thesis
  proof (elim disjE)
    assume r: "length bs mod 3 = 0"
    then show ?thesis using last_cs by (auto simp: strip_padding_def)
  next
    assume r: "length bs mod 3 = 1"
    then have pad: "replicate ((3 - length bs mod 3) mod 3) (0x3D :: 16 word) = [0x3D, 0x3D]"
      by (simp add: numeral_2_eq_2)
    have "length (?cs @ [0x3D, 0x3D]) mod 4 = 0" using len r by simp
    moreover have "butlast (?cs @ [0x3D, 0x3D :: 16 word]) = ?cs @ [0x3D]"
      by (simp add: butlast_append)
    ultimately show ?thesis unfolding pad strip_padding_def by (simp add: butlast_append)
  next
    assume r: "length bs mod 3 = 2"
    then have pad: "replicate ((3 - length bs mod 3) mod 3) (0x3D :: 16 word) = [0x3D]"
      by simp
    have l4: "length (?cs @ [0x3D]) mod 4 = 0" using len r by simp
    have "0 < length ?cs" using len r by simp
    then have ne: "?cs \<noteq> []" by blast
    show ?thesis unfolding pad strip_padding_def using l4 ne last_cs [OF ne] by (simp add: butlast_append)
  qed
qed

lemma atob_base64_encode:
  "atob (base64_encode bytes) = Inr (map of_nat (map unat bytes))"
proof -
  let ?bs = "map unat bytes"
  let ?sx = "bytes_to_sextets ?bs"
  let ?cs = "map base64_char ?sx"
  have small: "\<forall>b. b \<in> set ?bs \<longrightarrow> b < 256"
  proof (intro allI impI)
    fix b assume "b \<in> set ?bs"
    then obtain w :: "8 word" where "b = unat w" by auto
    then show "b < 256" using unsigned_less [of w, where ?'a = nat] by simp
  qed
  note bound = sextets_bound [OF small]
  have nows: "\<forall>c. c \<in> set (?cs @ replicate ((3 - length ?bs mod 3) mod 3) 0x3D)
                \<longrightarrow> \<not> is_ascii_whitespace c"
    using bound base64_char_not_whitespace by (auto simp: is_ascii_whitespace_def)
  have flt: "filter (\<lambda>c. \<not> is_ascii_whitespace c) (base64_encode bytes)
             = ?cs @ replicate ((3 - length ?bs mod 3) mod 3) 0x3D"
    unfolding base64_encode_def using nows by (simp add: filter_id_conv)
  have strip: "strip_padding (?cs @ replicate ((3 - length ?bs mod 3) mod 3) 0x3D) = ?cs"
    by (rule strip_padding_encoded [OF small])
  have len: "length ?cs mod 4 \<noteq> 1"
    by (simp add: length_bytes_to_sextets)
  have vals: "base64_values ?cs = Some ?sx"
    by (rule base64_values_chars [OF bound])
  have inv: "sextets_to_bytes ?sx = ?bs"
    by (rule sextets_bytes_roundtrip [OF small])
  show ?thesis
    unfolding atob_def flt strip Let_def using len by (simp add: vals inv)
qed

lemma decode_base64_encode: "decode (base64_encode bytes) = Inr bytes"
proof -
  have "map ucast (map (of_nat :: nat \<Rightarrow> 16 word) (map unat bytes)) = bytes"
    by (induction bytes) (simp_all add: ucast_of_nat_unat del: of_nat_unat)
  then show ?thesis by (simp add: decode_def atob_base64_encode del: of_nat_unat)
qed


lemma int16_elements_bytes: "int16_elements (concat (map int16_bytes ws)) = ws"
  by (induction ws) (simp_all add: int16_bytes_def int16_bytes_elements)

lemma length_pcm_bytes: "length (concat (map int16_bytes ws)) = 2 * length ws"
  by (induction ws) (simp_all add: int16_bytes_def)

lemma quantize_error:
  assumes "- 1 \<le> x" and "x \<le> 1"
  shows "\<bar>real_of_int (sint (quantize x)) / 32768 - x\<bar> \<le> 1 / 32768"
proof -
  define y where "y = x * 32768"
  define k where "k = max (- 32768) (min 32767 (round y))"
  have y: "- 32768 \<le> y" "y \<le> 32768" using assms by (simp_all add: y_def)
  have lo: "- 32768 \<le> round y" using round_mono [OF y(1)] by simp
  have hi: "round y \<le> 32768" using round_mono [OF y(2)] by simp
  have half: "\<bar>real_of_int (round y) - y\<bar> \<le> 1 / 2" by (rule of_int_round_abs_le)
  have k: "- 32768 \<le> k" "k \<le> 32767" by (simp_all add: k_def)
  have near: "\<bar>real_of_int k - y\<bar> \<le> 1"
  proof (cases "round y \<le> 32767")
    case True
    then have "k = round y" using lo by (simp add: k_def)
    with half show ?thesis by simp
  next
    case False
    with hi have r: "round y = 32768" by simp
    then have "k = 32767" by (simp add: k_def)
    moreover from half have "\<bar>32768 - y\<bar> \<le> 1 / 2" unfolding r by simp
    then have "32767 \<le> y" by linarith
    ultimately show ?thesis using y(2) by simp
  qed
  have "signed_take_bit 15 k = k"
    using k by (intro signed_take_bit_int_eq_self) simp_all
  then have "sint (word_of_int k :: 16 word) = k"
    by (simp add: sint_sbintrunc')
  then have q: "real_of_int (sint (quantize x)) = real_of_int k"
    by (simp add: quantize_def k_def y_def)
  from near have "real_of_int k - x * 32768 \<le> 1" "x * 32768 - real_of_int k \<le> 1"
    unfolding y_def by linarith+
  then have "real_of_int k / 32768 - x \<le> 1 / 32768" "x - real_of_int k / 32768 \<le> 1 / 32768"
    by (simp_all add: field_simps)
  then have "\<bar>real_of_int k / 32768 - x\<bar> \<le> 1 / 32768" by linarith
  then show ?thesis by (simp only: q)
qed


lemma getAudioBufferFromBase64_encode_pcm:
  assumes "samples \<noteq> []"
  shows "getAudioBufferFromBase64 (encode_pcm samples) =
           Inr \<lparr>numberOfChannels = 1, frames = length samples, sampleRate = 24000,
                channelData = [map (\<lambda>x. real_of_int (sint (quantize x)) / 32768) samples]\<rparr>"
proof -
  define ws where "ws = map quantize samples"
  define bytes where "bytes = concat (map int16_bytes ws)"
  have enc: "encode_pcm samples = base64_encode bytes"
    by (simp add: encode_pcm_def bytes_def ws_def comp_def)
  have len: "length bytes = 2 * length samples"
    using length_pcm_bytes [of ws] by (simp add: bytes_def ws_def)
  have "0 < length bytes" unfolding len using assms by simp
  then have ne: "bytes \<noteq> []" by blast
  have ev: "even (length bytes)" using len by simp
  have el: "int16_elements bytes = ws" unfolding bytes_def by (rule int16_elements_bytes)
  have "getAudioBufferFromBase64 (base64_encode bytes) =
          Inr \<lparr>numberOfChannels = 1, frames = length bytes div 2, sampleRate = 24000,
               channelData = [map (\<lambda>w. real_of_int (sint w) / 32768) (int16_elements bytes)]\<rparr>"
    using getAudioBufferFromBase64_decoded [OF decode_base64_encode [of bytes]] ne ev by simp
  then show ?thesis
    unfolding enc el len by (simp add: ws_def comp_def)
qed


text \<open>
  Claim C6, as amended. A payload that \<^verbatim>\<open>atob\<close> rejects makes the decoder fail with that
  error. When the payload decodes to a byte sequence of odd length, the decoder fails with
  the \<^verbatim>\<open>RangeError\<close> of the \<^verbatim>\<open>Int16Array\<close> constructor; when the length is even and not
  zero, it succeeds and returns a buffer of half as many frames; when the byte sequence is
  empty, it fails with the \<^verbatim>\<open>NotSupportedError\<close> of \<^verbatim>\<open>createBuffer\<close>.
\<close>

theorem getAudioBufferFromBase64_byte_length:
  "(\<forall>e. decode base64 = Inl e \<longrightarrow> getAudioBufferFromBase64 base64 = Inl e)
   \<and> (\<forall>bytes. decode base64 = Inr bytes \<longrightarrow>
         (odd (length bytes) \<longrightarrow> getAudioBufferFromBase64 base64 = Inl RangeError)
       \<and> (even (length bytes) \<and> bytes \<noteq> [] \<longrightarrow>
            (\<exists>buffer. getAudioBufferFromBase64 base64 = Inr buffer
                \<and> frames buffer = length bytes div 2
                \<and> length (channelData buffer ! 0) = length bytes div 2))
       \<and> (bytes = [] \<longrightarrow> getAudioBufferFromBase64 base64 = Inl NotSupportedError))"
proof (intro conjI allI impI)
  fix e assume "decode base64 = Inl e"
  then show "getAudioBufferFromBase64 base64 = Inl e"
    by (rule getAudioBufferFromBase64_undecoded)
next
  fix bytes assume d: "decode base64 = Inr bytes" and "odd (length bytes)"
  then show "getAudioBufferFromBase64 base64 = Inl RangeError"
    by (simp add: getAudioBufferFromBase64_decoded [OF d])
next
  fix bytes assume d: "decode base64 = Inr bytes" and "even (length bytes) \<and> bytes \<noteq> []"
  then show "\<exists>buffer. getAudioBufferFromBase64 base64 = Inr buffer
                \<and> frames buffer = length bytes div 2
                \<and> length (channelData buffer ! 0) = length bytes div 2"
    by (simp add: getAudioBufferFromBase64_decoded [OF d] length_int16_elements)
next
  fix bytes assume d: "decode base64 = Inr bytes" and "bytes = []"
  then show "getAudioBufferFromBase64 base64 = Inl NotSupportedError"
    by (simp add: getAudioBufferFromBase64_decoded [OF d])
qed

lemma decode_AQID: "decode (js ''AQID'') = Inr [1, 2, 3]"
  by (simp add: decode_def atob_def strip_padding_def base64_value_def js_def
      is_ascii_whitespace_def Let_def)

lemma decode_AID: "decode (js ''AID/fw=='') = Inr [0, 128, 255, 127]"
  by (simp add: decode_def atob_def strip_padding_def base64_value_def js_def
      is_ascii_whitespace_def Let_def)

lemma decode_blank: "decode (js '' '') = Inr []" "decode (js '''') = Inr []"
  by (simp_all add: decode_def atob_def strip_padding_def base64_value_def js_def
      is_ascii_whitespace_def Let_def)

theorem getAudioBufferFromBase64_byte_length_witness:
  "decode (js ''AQID'') = Inr [1, 2, 3]
   \<and> getAudioBufferFromBase64 (js ''AQID'') = Inl RangeError
   \<and> decode (js ''AID/fw=='') = Inr [0, 128, 255, 127]
   \<and> getAudioBufferFromBase64 (js ''AID/fw=='') =
       Inr \<lparr>numberOfChannels = 1, frames = 2, sampleRate = 24000,
            channelData = [[- 1, 32767 / 32768]]\<rparr>"
  using getAudioBufferFromBase64_byte_length [of "js ''AQID''"]
    getAudioBufferFromBase64_decoded [OF decode_AID]
  by (simp add: decode_AQID decode_AID)

text \<open>
  Claim C6 as stated fails: the payloads \<^verbatim>\<open>" "\<close> and \<^verbatim>\<open>""\<close> decode to the empty
  byte sequence, of even length 0, and the decoder does not return a buffer for them.
\<close>

theorem getAudioBufferFromBase64_empty_counterexample:
  "decode (js '' '') = Inr [] \<and> even (length ([] :: 8 word list))
   \<and> getAudioBufferFromBase64 (js '' '') = Inl NotSupportedError
   \<and> getAudioBufferFromBase64 (js '''') = Inl NotSupportedError"
  using getAudioBufferFromBase64_decoded [OF decode_blank(1)]
    getAudioBufferFromBase64_decoded [OF decode_blank(2)]
  by (simp add: decode_blank)


text \<open>
  Claim C7, as amended. For a payload that decodes to a non-empty byte sequence of even
  length, the decoder returns a mono buffer of 24000 Hz whose sample \<open>i\<close> is the signed
  value of the 16-bit word with low byte \<open>2i\<close> and high byte \<open>2i + 1\<close>, divided by 32768.
  For every non-empty buffer of samples in \<open>[-1, 1]\<close>, decoding its encoded payload gives a
  buffer of as many samples, each within \<open>1 / 32768\<close> of the original.
\<close>

theorem pcm_decode_roundtrip:
  "(\<forall>bytes. decode base64 = Inr bytes \<and> even (length bytes) \<and> bytes \<noteq> [] \<longrightarrow>
        getAudioBufferFromBase64 base64 =
          Inr \<lparr>numberOfChannels = 1, frames = length bytes div 2, sampleRate = 24000,
               channelData = [map (\<lambda>w. real_of_int (sint w) / 32768) (int16_elements bytes)]\<rparr>
      \<and> (\<forall>i. i < length bytes div 2 \<longrightarrow>
            int16_elements bytes ! i
              = push_bit 8 (ucast (bytes ! (2 * i + 1))) OR ucast (bytes ! (2 * i))))
   \<and> (samples \<noteq> [] \<and> (\<forall>x. x \<in> set samples \<longrightarrow> - 1 \<le> x \<and> x \<le> 1) \<longrightarrow>
        (\<exists>buffer. getAudioBufferFromBase64 (encode_pcm samples) = Inr buffer
            \<and> numberOfChannels buffer = 1 \<and> sampleRate buffer = 24000
            \<and> frames buffer = length samples
            \<and> length (channelData buffer ! 0) = length samples
            \<and> (\<forall>i. i < length samples \<longrightarrow>
                  \<bar>channelData buffer ! 0 ! i - samples ! i\<bar> \<le> 1 / 32768)))"
proof (intro conjI allI impI)
  fix bytes assume a: "decode base64 = Inr bytes \<and> even (length bytes) \<and> bytes \<noteq> []"
  then show "getAudioBufferFromBase64 base64 =
          Inr \<lparr>numberOfChannels = 1, frames = length bytes div 2, sampleRate = 24000,
               channelData = [map (\<lambda>w. real_of_int (sint w) / 32768) (int16_elements bytes)]\<rparr>"
    using getAudioBufferFromBase64_decoded [of base64 bytes] by simp
next
  fix bytes :: "8 word list" and i
  assume "decode base64 = Inr bytes \<and> even (length bytes) \<and> bytes \<noteq> []"
    and "i < length bytes div 2"
  from this(2) show "int16_elements bytes ! i
              = push_bit 8 (ucast (bytes ! (2 * i + 1))) OR ucast (bytes ! (2 * i))"
    by (rule int16_elements_nth)
next
  assume a: "samples \<noteq> [] \<and> (\<forall>x. x \<in> set samples \<longrightarrow> - 1 \<le> x \<and> x \<le> 1)"
  let ?buffer = "\<lparr>numberOfChannels = 1, frames = length samples, sampleRate = 24000,
                channelData = [map (\<lambda>x. real_of_int (sint (quantize x)) / 32768) samples]\<rparr>"
  have dec: "getAudioBufferFromBase64 (encode_pcm samples) = Inr ?buffer"
    using a by (intro getAudioBufferFromBase64_encode_pcm) simp
  have err: "\<forall>i. i < length samples \<longrightarrow> \<bar>channelData ?buffer ! 0 ! i - samples ! i\<bar> \<le> 1 / 32768"
  proof (intro allI impI)
    fix i assume i: "i < length samples"
    then have "samples ! i \<in> set samples" by simp
    with a have "- 1 \<le> samples ! i" "samples ! i \<le> 1" by blast+
    from quantize_error [OF this] i
    show "\<bar>channelData ?buffer ! 0 ! i - samples ! i\<bar> \<le> 1 / 32768" by simp
  qed
  show "\<exists>buffer. getAudioBufferFromBase64 (encode_pcm samples) = Inr buffer
            \<and> numberOfChannels buffer = 1 \<and> sampleRate buffer = 24000
            \<and> frames buffer = length samples
            \<and> length (channelData buffer ! 0) = length samples
            \<and> (\<forall>i. i < length samples \<longrightarrow>
                  \<bar>channelData buffer ! 0 ! i - samples ! i\<bar> \<le> 1 / 32768)"
    by (rule exI [of _ ?buffer]) (use dec err in simp)
qed

lemma quantize_examples:
  "quantize (- 1) = - 32768" "quantize 1 = 32767" "quantize 0 = 0" "quantize (1 / 2) = 16384"
  by (simp_all add: quantize_def)

theorem pcm_decode_roundtrip_witness:
  "getAudioBufferFromBase64 (encode_pcm [- 1, 1, 0, 1 / 2]) =
     Inr \<lparr>numberOfChannels = 1, frames = 4, sampleRate = 24000,
          channelData = [[- 1, 32767 / 32768, 0, 1 / 2]]\<rparr>"
  using pcm_decode_roundtrip [of "encode_pcm [- 1, 1, 0, 1 / 2]" "[- 1, 1, 0, 1 / 2]"]
    getAudioBufferFromBase64_encode_pcm [of "[- 1, 1, 0, 1 / 2]"]
  by (simp add: quantize_examples)

text \<open>
  Claim C7 as stated fails for the empty sample buffer: its payload is the empty string,
  and decoding it back fails instead of yielding a buffer.
\<close>

theorem pcm_roundtrip_empty_counterexample:
  "list_all (\<lambda>x. - 1 \<le> x \<and> x \<le> 1) ([] :: real list)
   \<and> encode_pcm [] = []
   \<and> getAudioBufferFromBase64 (encode_pcm []) = Inl NotSupportedError"
  using getAudioBufferFromBase64_decoded [OF decode_base64_encode [of "[]"]]
  by (simp add: encode_pcm_def base64_encode_def)


subsection \<open>Slide durations\<close>






end
